theory Spec2Isabelle
  imports Main
begin

section \<open>The underlying container\<close>

text \<open>
  \<^verbatim>\<open>copy_on_write_vector<T, Allocator>\<close> keeps its elements in a
  \<^verbatim>\<open>std::vector\<close> (\<^verbatim>\<open>container_type\<close>) that lives behind a
  \<^verbatim>\<open>std::shared_ptr\<close>. A vector is its element sequence and its capacity.
  Sizes are natural numbers: a \<^verbatim>\<open>size_type\<close> never exceeds \<^verbatim>\<open>max_size()\<close>.
  Memory is taken to suffice (\<^verbatim>\<open>std::bad_alloc\<close> is not modelled), and
  \<^verbatim>\<open>std::length_error\<close> is modelled where the caller names the size to reach:
  \<^verbatim>\<open>reserve\<close>, \<^verbatim>\<open>resize\<close>, and \<^verbatim>\<open>assign\<close> and \<^verbatim>\<open>insert_at\<close> with a count.
\<close>

record 'a vec =
  elems :: "'a list"
  cap :: nat

text \<open>
  The ways a call can fail: \<^verbatim>\<open>std::out_of_range\<close> thrown by the bounds-checked
  \<^verbatim>\<open>at\<close>, \<^verbatim>\<open>std::length_error\<close> thrown when a vector is asked to grow beyond
  \<^verbatim>\<open>max_size()\<close>, and a library operation called outside its precondition, whose
  behaviour the language leaves undefined. An exception unwinds the call, so the state
  after \<open>Inl Out_of_range\<close> or \<open>Inl Length_error\<close> is the state before the call;
  after \<open>Inl Undefined_behaviour\<close> nothing is known.
\<close>

datatype error = Out_of_range | Length_error | Undefined_behaviour

text \<open>The copy constructor allocates room for exactly the elements copied.\<close>

definition vec_copy :: "'a vec \<Rightarrow> 'a vec" where
  "vec_copy v = \<lparr>elems = elems v, cap = length (elems v)\<rparr>"

text \<open>
  Capacity after \<open>k\<close> more elements: unchanged while they fit, otherwise the
  usual geometric growth. The standard leaves the policy open.
\<close>

definition grown :: "nat \<Rightarrow> 'a vec \<Rightarrow> nat" where
  "grown k v =
     (if length (elems v) + k \<le> cap v then cap v
      else length (elems v) + max (length (elems v)) k)"

definition vec_at :: "nat \<Rightarrow> 'a vec \<Rightarrow> error + 'a" where
  "vec_at n v = (if n < length (elems v) then Inr (elems v ! n) else Inl Out_of_range)"

definition vec_index :: "nat \<Rightarrow> 'a vec \<Rightarrow> error + 'a" where
  "vec_index n v =
     (if n < length (elems v) then Inr (elems v ! n) else Inl Undefined_behaviour)"

definition vec_front :: "'a vec \<Rightarrow> error + 'a" where
  "vec_front v = (case elems v of [] \<Rightarrow> Inl Undefined_behaviour | x # _ \<Rightarrow> Inr x)"

definition vec_back :: "'a vec \<Rightarrow> error + 'a" where
  "vec_back v = (if elems v = [] then Inl Undefined_behaviour else Inr (last (elems v)))"

definition vec_assign :: "nat \<Rightarrow> 'a \<Rightarrow> 'a vec \<Rightarrow> error + 'a vec" where
  "vec_assign count v0 v = Inr \<lparr>elems = replicate count v0, cap = max (cap v) count\<rparr>"

definition vec_assign_range :: "'a list \<Rightarrow> 'a vec \<Rightarrow> error + 'a vec" where
  "vec_assign_range xs v = Inr \<lparr>elems = xs, cap = max (cap v) (length xs)\<rparr>"

definition vec_reserve :: "nat \<Rightarrow> 'a vec \<Rightarrow> error + 'a vec" where
  "vec_reserve new_cap v = Inr (v\<lparr>cap := max (cap v) new_cap\<rparr>)"

definition vec_shrink_to_fit :: "'a vec \<Rightarrow> error + 'a vec" where
  "vec_shrink_to_fit v = Inr (v\<lparr>cap := length (elems v)\<rparr>)"

text \<open>
  \<^verbatim>\<open>insert(begin() + index, ...)\<close>: the position must lie in \<open>[begin(), end()]\<close>.
\<close>

definition vec_insert :: "nat \<Rightarrow> 'a list \<Rightarrow> 'a vec \<Rightarrow> error + 'a vec" where
  "vec_insert index xs v =
     (if index \<le> length (elems v)
      then Inr \<lparr>elems = take index (elems v) @ xs @ drop index (elems v),
                cap = grown (length xs) v\<rparr>
      else Inl Undefined_behaviour)"

text \<open>\<^verbatim>\<open>(*copied_container)[index] = value\<close>: unchecked.\<close>

definition vec_set :: "nat \<Rightarrow> 'a \<Rightarrow> 'a vec \<Rightarrow> error + 'a vec" where
  "vec_set index x v =
     (if index < length (elems v) then Inr (v\<lparr>elems := (elems v)[index := x]\<rparr>)
      else Inl Undefined_behaviour)"

text \<open>\<^verbatim>\<open>erase(begin() + index)\<close>: the position must be dereferenceable.\<close>

definition vec_erase :: "nat \<Rightarrow> 'a vec \<Rightarrow> error + 'a vec" where
  "vec_erase index v =
     (if index < length (elems v)
      then Inr (v\<lparr>elems := take index (elems v) @ drop (Suc index) (elems v)\<rparr>)
      else Inl Undefined_behaviour)"

text \<open>\<^verbatim>\<open>erase(begin() + first, begin() + last)\<close>: a valid range of the vector.\<close>

definition vec_erase_range :: "nat \<Rightarrow> nat \<Rightarrow> 'a vec \<Rightarrow> error + 'a vec" where
  "vec_erase_range first last' v =
     (if first \<le> last' \<and> last' \<le> length (elems v)
      then Inr (v\<lparr>elems := take first (elems v) @ drop last' (elems v)\<rparr>)
      else Inl Undefined_behaviour)"

definition vec_push_back :: "'a \<Rightarrow> 'a vec \<Rightarrow> error + 'a vec" where
  "vec_push_back x v = Inr \<lparr>elems = elems v @ [x], cap = grown 1 v\<rparr>"

definition vec_pop_back :: "'a vec \<Rightarrow> error + 'a vec" where
  "vec_pop_back v =
     (if elems v = [] then Inl Undefined_behaviour
      else Inr (v\<lparr>elems := butlast (elems v)\<rparr>))"

definition vec_resize :: "nat \<Rightarrow> 'a \<Rightarrow> 'a vec \<Rightarrow> error + 'a vec" where
  "vec_resize count x v =
     (if count \<le> length (elems v) then Inr (v\<lparr>elems := take count (elems v)\<rparr>)
      else Inr \<lparr>elems = elems v @ replicate (count - length (elems v)) x,
                cap = grown (count - length (elems v)) v\<rparr>)"

text \<open>
  \<^verbatim>\<open>std::find\<close> and \<^verbatim>\<open>std::find_if\<close> return the position of the first match,
  or the end of the range.
\<close>

fun std_find_if :: "('a \<Rightarrow> bool) \<Rightarrow> 'a list \<Rightarrow> nat" where
  "std_find_if pred [] = 0"
| "std_find_if pred (x # xs) = (if pred x then 0 else Suc (std_find_if pred xs))"

definition std_find :: "'a \<Rightarrow> 'a list \<Rightarrow> nat" where
  "std_find val xs = std_find_if (\<lambda>x. x = val) xs"

text \<open>
  \<^verbatim>\<open>std::remove_if\<close> shifts the elements to keep to the front, in order, and
  returns the new logical end; the positions behind it are never written.
\<close>

definition std_remove_if :: "('a \<Rightarrow> bool) \<Rightarrow> 'a list \<Rightarrow> nat \<times> 'a list" where
  "std_remove_if pred xs =
     (let kept = filter (\<lambda>x. \<not> pred x) xs
      in (length kept, kept @ drop (length kept) xs))"

definition std_remove :: "'a \<Rightarrow> 'a list \<Rightarrow> nat \<times> 'a list" where
  "std_remove val xs = std_remove_if (\<lambda>x. x = val) xs"

text \<open>
  \<^verbatim>\<open>std::stable_sort\<close> keeps equivalent elements in their order, so its result is
  determined: it is that of insertion from the right.
\<close>

fun insert_by :: "('a \<Rightarrow> 'a \<Rightarrow> bool) \<Rightarrow> 'a \<Rightarrow> 'a list \<Rightarrow> 'a list" where
  "insert_by cmp x [] = [x]"
| "insert_by cmp x (y # ys) = (if cmp y x then y # insert_by cmp x ys else x # y # ys)"

definition sort_by :: "('a \<Rightarrow> 'a \<Rightarrow> bool) \<Rightarrow> 'a list \<Rightarrow> 'a list" where
  "sort_by cmp xs = foldr (insert_by cmp) xs []"

text \<open>
  Both sorts require the comparison to be a strict weak ordering and have no defined
  behaviour otherwise; the requirement is checked on the elements that are there.
\<close>

definition strict_weak_on :: "('a \<Rightarrow> 'a \<Rightarrow> bool) \<Rightarrow> 'a list \<Rightarrow> bool" where
  "strict_weak_on cmp xs \<longleftrightarrow>
     list_all (\<lambda>x. \<not> cmp x x) xs \<and>
     list_all (\<lambda>x. list_all (\<lambda>y. list_all (\<lambda>z.
       (cmp x y \<and> cmp y z \<longrightarrow> cmp x z) \<and>
       (\<not> cmp x y \<and> \<not> cmp y x \<and> \<not> cmp y z \<and> \<not> cmp z y \<longrightarrow> \<not> cmp x z \<and> \<not> cmp z x))
       xs) xs) xs"

definition vec_sort ::
  "(('a \<Rightarrow> 'a \<Rightarrow> bool) \<Rightarrow> 'a list \<Rightarrow> 'a list) \<Rightarrow> ('a \<Rightarrow> 'a \<Rightarrow> bool) \<Rightarrow> 'a vec \<Rightarrow> error + 'a vec" where
  "vec_sort algorithm cmp v =
     (if strict_weak_on cmp (elems v) then Inr (v\<lparr>elems := algorithm cmp (elems v)\<rparr>)
      else Inl Undefined_behaviour)"

text \<open>
  What the standard leaves to the implementation: the largest size a vector can have,
  and the algorithm of \<^verbatim>\<open>std::sort\<close>, which may leave equivalent elements in any
  order. Both are parameters.
\<close>

record 'a library =
  max_size :: nat
  std_sort :: "('a \<Rightarrow> 'a \<Rightarrow> bool) \<Rightarrow> 'a list \<Rightarrow> 'a list"

text \<open>A vector asked to hold more than \<^verbatim>\<open>max_size()\<close> elements throws.\<close>

definition length_checked :: "nat \<Rightarrow> nat \<Rightarrow> error + 'b \<Rightarrow> error + 'b" where
  "length_checked limit n r = (if limit < n then Inl Length_error else r)"

definition vec_insert_count ::
  "nat \<Rightarrow> nat \<Rightarrow> nat \<Rightarrow> 'a \<Rightarrow> 'a vec \<Rightarrow> error + 'a vec" where
  "vec_insert_count limit index count val v =
     (if index \<le> length (elems v)
      then length_checked limit (length (elems v) + count)
             (vec_insert index (replicate count val) v)
      else Inl Undefined_behaviour)"


section \<open>Shared ownership\<close>

text \<open>
  A \<^verbatim>\<open>std::shared_ptr<container_type>\<close> is an address; the object it owns sits
  in a heap cell together with its use count, and is destroyed when the count drops to
  zero. A live object has at least one owner, so the cell keeps the number of owners
  beyond the first: \<open>Some (v, k)\<close> is the vector \<open>v\<close> with use count \<open>Suc k\<close>.
  \<^verbatim>\<open>std::make_shared\<close> takes any free address, so an address may be reused once
  its object is gone.
\<close>

type_synonym addr = nat

type_synonym 'a heap = "('a vec \<times> nat) option list"

definition cell :: "'a heap \<Rightarrow> addr \<Rightarrow> ('a vec \<times> nat) option" where
  "cell h a = (if a < length h then h ! a else None)"

definition store :: "addr \<Rightarrow> ('a vec \<times> nat) option \<Rightarrow> 'a heap \<Rightarrow> 'a heap" where
  "store a x h =
     (if a < length h then h[a := x] else h @ replicate (a - length h) None @ [x])"

fun free_slot :: "'a heap \<Rightarrow> addr" where
  "free_slot [] = 0"
| "free_slot (None # h) = 0"
| "free_slot (Some c # h) = Suc (free_slot h)"

definition make_shared :: "'a vec \<Rightarrow> 'a heap \<Rightarrow> addr \<times> 'a heap" where
  "make_shared v h = (let p = free_slot h in (p, store p (Some (v, 0)) h))"

text \<open>Copying a \<^verbatim>\<open>shared_ptr\<close>.\<close>

definition acquire :: "addr \<Rightarrow> 'a heap \<Rightarrow> 'a heap" where
  "acquire p h =
     (case cell h p of None \<Rightarrow> h | Some (v, k) \<Rightarrow> store p (Some (v, Suc k)) h)"

text \<open>Destroying a \<^verbatim>\<open>shared_ptr\<close>, or assigning over it.\<close>

definition release :: "addr \<Rightarrow> 'a heap \<Rightarrow> 'a heap" where
  "release p h =
     (case cell h p of
        None \<Rightarrow> h
      | Some (v, 0) \<Rightarrow> store p None h
      | Some (v, Suc k) \<Rightarrow> store p (Some (v, k)) h)"

text \<open>Writing through a \<^verbatim>\<open>shared_ptr\<close>: \<^verbatim>\<open>*p = v\<close>.\<close>

definition set_obj :: "addr \<Rightarrow> 'a vec \<Rightarrow> 'a heap \<Rightarrow> 'a heap" where
  "set_obj p v h =
     (case cell h p of None \<Rightarrow> h | Some (w, k) \<Rightarrow> store p (Some (v, k)) h)"

text \<open>The vector a pointer refers to, if it is alive, and its use count.\<close>

definition buffer :: "'a heap \<Rightarrow> addr \<Rightarrow> 'a vec option" where
  "buffer h p = map_option fst (cell h p)"

definition use_count :: "'a heap \<Rightarrow> addr \<Rightarrow> nat" where
  "use_count h p = (case cell h p of None \<Rightarrow> 0 | Some (v, k) \<Rightarrow> Suc k)"


section \<open>The container and its snapshots\<close>

text \<open>
  The container holds \<^verbatim>\<open>_shared_container\<close> and \<^verbatim>\<open>_mutex\<close>. Every mutator
  runs under a \<^verbatim>\<open>std::lock_guard\<close> on the mutex, so it is one atomic step here and
  the mutex has no state of its own. A snapshot holds one more reference to the buffer
  that was current when it was taken.
\<close>

record cow =
  shared_container :: addr

record snapshot =
  snapshot_container :: addr

text \<open>Construction from an initializer list or a range.\<close>

definition cow_of_list :: "'a list \<Rightarrow> 'a heap \<Rightarrow> cow \<times> 'a heap" where
  "cow_of_list xs h =
     (let (p, h1) = make_shared \<lparr>elems = xs, cap = length xs\<rparr> h
      in (\<lparr>shared_container = p\<rparr>, h1))"

definition lock :: "cow \<Rightarrow> 'a heap \<Rightarrow> snapshot \<times> 'a heap" where
  "lock c h =
     (\<lparr>snapshot_container = shared_container c\<rparr>, acquire (shared_container c) h)"

definition snapshot_release :: "snapshot \<Rightarrow> 'a heap \<Rightarrow> 'a heap" where
  "snapshot_release s h = release (snapshot_container s) h"

text \<open>Reading through a snapshot; a dangling pointer has no defined behaviour.\<close>

definition snapshot_read :: "('a vec \<Rightarrow> error + 'r) \<Rightarrow> snapshot \<Rightarrow> 'a heap \<Rightarrow> error + 'r" where
  "snapshot_read f s h =
     (case buffer h (snapshot_container s) of
        None \<Rightarrow> Inl Undefined_behaviour
      | Some v \<Rightarrow> f v)"

definition snapshot_at :: "nat \<Rightarrow> snapshot \<Rightarrow> 'a heap \<Rightarrow> error + 'a" where
  "snapshot_at n = snapshot_read (vec_at n)"

definition snapshot_index :: "nat \<Rightarrow> snapshot \<Rightarrow> 'a heap \<Rightarrow> error + 'a" where
  "snapshot_index n = snapshot_read (vec_index n)"

definition snapshot_front :: "snapshot \<Rightarrow> 'a heap \<Rightarrow> error + 'a" where
  "snapshot_front = snapshot_read vec_front"

definition snapshot_back :: "snapshot \<Rightarrow> 'a heap \<Rightarrow> error + 'a" where
  "snapshot_back = snapshot_read vec_back"

text \<open>The allocator is \<^verbatim>\<open>std::allocator<T>\<close>, which has no state.\<close>

definition snapshot_get_allocator :: "snapshot \<Rightarrow> 'a heap \<Rightarrow> error + unit" where
  "snapshot_get_allocator = snapshot_read (\<lambda>v. Inr ())"

definition snapshot_size :: "snapshot \<Rightarrow> 'a heap \<Rightarrow> error + nat" where
  "snapshot_size = snapshot_read (\<lambda>v. Inr (length (elems v)))"

definition snapshot_empty :: "snapshot \<Rightarrow> 'a heap \<Rightarrow> error + bool" where
  "snapshot_empty = snapshot_read (\<lambda>v. Inr (elems v = []))"

definition snapshot_capacity :: "snapshot \<Rightarrow> 'a heap \<Rightarrow> error + nat" where
  "snapshot_capacity = snapshot_read (\<lambda>v. Inr (cap v))"

text \<open>The elements met by iterating from \<^verbatim>\<open>begin()\<close> to \<^verbatim>\<open>end()\<close>.\<close>

definition snapshot_elems :: "snapshot \<Rightarrow> 'a heap \<Rightarrow> error + 'a list" where
  "snapshot_elems = snapshot_read (\<lambda>v. Inr (elems v))"

text \<open>
  The container's own readers are \<^verbatim>\<open>lock().f()\<close>: a temporary snapshot is taken,
  read, and destroyed at the end of the expression, also when the read throws.
\<close>

definition via_lock :: "(snapshot \<Rightarrow> 'a heap \<Rightarrow> error + 'r) \<Rightarrow> cow \<Rightarrow> 'a heap \<Rightarrow> (error + 'r) \<times> 'a heap" where
  "via_lock f c h =
     (let (s, h1) = lock c h;
          r = f s h1
      in (r, snapshot_release s h1))"

definition get_allocator :: "cow \<Rightarrow> 'a heap \<Rightarrow> (error + unit) \<times> 'a heap" where
  "get_allocator = via_lock snapshot_get_allocator"

definition at_cow :: "nat \<Rightarrow> cow \<Rightarrow> 'a heap \<Rightarrow> (error + 'a) \<times> 'a heap" where
  "at_cow n = via_lock (snapshot_at n)"

definition subscript :: "nat \<Rightarrow> cow \<Rightarrow> 'a heap \<Rightarrow> (error + 'a) \<times> 'a heap" where
  "subscript n = via_lock (snapshot_index n)"

definition front :: "cow \<Rightarrow> 'a heap \<Rightarrow> (error + 'a) \<times> 'a heap" where
  "front = via_lock snapshot_front"

definition back_cow :: "cow \<Rightarrow> 'a heap \<Rightarrow> (error + 'a) \<times> 'a heap" where
  "back_cow = via_lock snapshot_back"

definition empty_cow :: "cow \<Rightarrow> 'a heap \<Rightarrow> (error + bool) \<times> 'a heap" where
  "empty_cow = via_lock snapshot_empty"

definition size_cow :: "cow \<Rightarrow> 'a heap \<Rightarrow> (error + nat) \<times> 'a heap" where
  "size_cow = via_lock snapshot_size"

definition capacity :: "cow \<Rightarrow> 'a heap \<Rightarrow> (error + nat) \<times> 'a heap" where
  "capacity = via_lock snapshot_capacity"


section \<open>Mutators\<close>

text \<open>
  Every eager mutator is the same four lines: take the lock, build
  \<^verbatim>\<open>copied_container = std::make_shared<container_type>(*_shared_container)\<close>,
  apply the vector operation to \<^verbatim>\<open>*copied_container\<close>, and publish with
  \<^verbatim>\<open>_shared_container = std::move(copied_container)\<close>.
\<close>

definition copy_current :: "addr \<Rightarrow> 'a heap \<Rightarrow> error + (addr \<times> 'a heap)" where
  "copy_current p h =
     (case buffer h p of
        None \<Rightarrow> Inl Undefined_behaviour
      | Some v \<Rightarrow> Inr (make_shared (vec_copy v) h))"

definition update_obj :: "('a vec \<Rightarrow> error + 'a vec) \<Rightarrow> addr \<Rightarrow> 'a heap \<Rightarrow> error + 'a heap" where
  "update_obj f p h =
     (case buffer h p of
        None \<Rightarrow> Inl Undefined_behaviour
      | Some v \<Rightarrow> (case f v of Inl e \<Rightarrow> Inl e | Inr v' \<Rightarrow> Inr (set_obj p v' h)))"

text \<open>
  Move assignment to \<^verbatim>\<open>_shared_container\<close>: the old reference is given up, the
  new one changes hands without touching its count.
\<close>

definition publish :: "addr \<Rightarrow> cow \<Rightarrow> 'a heap \<Rightarrow> cow \<times> 'a heap" where
  "publish p c h = (c\<lparr>shared_container := p\<rparr>, release (shared_container c) h)"

definition mutate :: "('a vec \<Rightarrow> error + 'a vec) \<Rightarrow> cow \<Rightarrow> 'a heap \<Rightarrow> error + (cow \<times> 'a heap)" where
  "mutate f c h =
     (case copy_current (shared_container c) h of
        Inl e \<Rightarrow> Inl e
      | Inr (copied_container, h1) \<Rightarrow>
          (case update_obj f copied_container h1 of
             Inl e \<Rightarrow> Inl e
           | Inr h2 \<Rightarrow> Inr (publish copied_container c h2)))"

definition assign :: "'a library \<Rightarrow> nat \<Rightarrow> 'a \<Rightarrow> cow \<Rightarrow> 'a heap \<Rightarrow> error + (cow \<times> 'a heap)" where
  "assign lib count val =
     mutate (\<lambda>v. length_checked (max_size lib) count (vec_assign count val v))"

definition assign_range :: "'a list \<Rightarrow> cow \<Rightarrow> 'a heap \<Rightarrow> error + (cow \<times> 'a heap)" where
  "assign_range xs = mutate (vec_assign_range xs)"

definition reserve :: "'a library \<Rightarrow> nat \<Rightarrow> cow \<Rightarrow> 'a heap \<Rightarrow> error + (cow \<times> 'a heap)" where
  "reserve lib new_cap =
     mutate (\<lambda>v. length_checked (max_size lib) new_cap (vec_reserve new_cap v))"

definition shrink_to_fit :: "cow \<Rightarrow> 'a heap \<Rightarrow> error + (cow \<times> 'a heap)" where
  "shrink_to_fit = mutate vec_shrink_to_fit"

text \<open>
  \<^verbatim>\<open>clear\<close> does not copy: it builds an empty vector with the allocator of the
  current one (\<^verbatim>\<open>get_allocator()\<close>, a read through a temporary snapshot), reserves
  the capacity of the current buffer in it and publishes it.
\<close>

definition clear :: "cow \<Rightarrow> 'a heap \<Rightarrow> error + (cow \<times> 'a heap)" where
  "clear c h =
     (case get_allocator c h of
        (Inl e, h1) \<Rightarrow> Inl e
      | (Inr allocator, h1) \<Rightarrow>
          (let (copied_container, h2) = make_shared \<lparr>elems = [], cap = 0\<rparr> h1
           in case buffer h2 (shared_container c) of
                None \<Rightarrow> Inl Undefined_behaviour
              | Some v \<Rightarrow>
                  (case update_obj (vec_reserve (cap v)) copied_container h2 of
                     Inl e \<Rightarrow> Inl e
                   | Inr h3 \<Rightarrow> Inr (publish copied_container c h3))))"

text \<open>
  \<^verbatim>\<open>insert_at\<close> with one value, with \<open>count\<close> copies, and with a range or an
  initializer list; \<^verbatim>\<open>emplace_at\<close> is the first with the value built in place.
\<close>

definition insert_at :: "nat \<Rightarrow> 'a \<Rightarrow> cow \<Rightarrow> 'a heap \<Rightarrow> error + (cow \<times> 'a heap)" where
  "insert_at index val = mutate (vec_insert index [val])"

definition insert_count_at ::
  "'a library \<Rightarrow> nat \<Rightarrow> nat \<Rightarrow> 'a \<Rightarrow> cow \<Rightarrow> 'a heap \<Rightarrow> error + (cow \<times> 'a heap)" where
  "insert_count_at lib index count val =
     mutate (vec_insert_count (max_size lib) index count val)"

definition insert_range_at :: "nat \<Rightarrow> 'a list \<Rightarrow> cow \<Rightarrow> 'a heap \<Rightarrow> error + (cow \<times> 'a heap)" where
  "insert_range_at index xs = mutate (vec_insert index xs)"

definition emplace_at :: "nat \<Rightarrow> 'a \<Rightarrow> cow \<Rightarrow> 'a heap \<Rightarrow> error + (cow \<times> 'a heap)" where
  "emplace_at index val = mutate (vec_insert index [val])"

definition replace_at :: "nat \<Rightarrow> 'a \<Rightarrow> cow \<Rightarrow> 'a heap \<Rightarrow> error + (cow \<times> 'a heap)" where
  "replace_at index val = mutate (vec_set index val)"

definition erase_at :: "nat \<Rightarrow> cow \<Rightarrow> 'a heap \<Rightarrow> error + (cow \<times> 'a heap)" where
  "erase_at index = mutate (vec_erase index)"

definition erase_range :: "nat \<Rightarrow> nat \<Rightarrow> cow \<Rightarrow> 'a heap \<Rightarrow> error + (cow \<times> 'a heap)" where
  "erase_range first last' = mutate (vec_erase_range first last')"

definition push_back :: "'a \<Rightarrow> cow \<Rightarrow> 'a heap \<Rightarrow> error + (cow \<times> 'a heap)" where
  "push_back val = mutate (vec_push_back val)"

definition emplace_back :: "'a \<Rightarrow> cow \<Rightarrow> 'a heap \<Rightarrow> error + (cow \<times> 'a heap)" where
  "emplace_back val = mutate (vec_push_back val)"

text \<open>The ranged \<^verbatim>\<open>push_back\<close> appends one element at a time to the copy.\<close>

fun vec_push_back_all :: "'a list \<Rightarrow> 'a vec \<Rightarrow> error + 'a vec" where
  "vec_push_back_all [] v = Inr v"
| "vec_push_back_all (x # xs) v =
     (case vec_push_back x v of Inl e \<Rightarrow> Inl e | Inr v' \<Rightarrow> vec_push_back_all xs v')"

definition push_back_range :: "'a list \<Rightarrow> cow \<Rightarrow> 'a heap \<Rightarrow> error + (cow \<times> 'a heap)" where
  "push_back_range xs = mutate (vec_push_back_all xs)"

definition pop_back :: "cow \<Rightarrow> 'a heap \<Rightarrow> error + (cow \<times> 'a heap)" where
  "pop_back = mutate vec_pop_back"

text \<open>\<^verbatim>\<open>resize(count)\<close> is \<^verbatim>\<open>resize(count, T())\<close>.\<close>

definition resize :: "'a library \<Rightarrow> nat \<Rightarrow> 'a \<Rightarrow> cow \<Rightarrow> 'a heap \<Rightarrow> error + (cow \<times> 'a heap)" where
  "resize lib count val =
     mutate (\<lambda>v. length_checked (max_size lib) count (vec_resize count val v))"

text \<open>
  \<^verbatim>\<open>sort\<close> runs the library's \<^verbatim>\<open>std::sort\<close> on the copy, \<^verbatim>\<open>stable_sort\<close>
  its \<^verbatim>\<open>std::stable_sort\<close>; without a comparison they compare with \<^verbatim>\<open><\<close>.
\<close>

definition sort_cow :: "('a::ord) library \<Rightarrow> cow \<Rightarrow> 'a heap \<Rightarrow> error + (cow \<times> 'a heap)" where
  "sort_cow lib = mutate (vec_sort (std_sort lib) (\<lambda>a b. a < b))"

definition sort_comp ::
  "'a library \<Rightarrow> ('a \<Rightarrow> 'a \<Rightarrow> bool) \<Rightarrow> cow \<Rightarrow> 'a heap \<Rightarrow> error + (cow \<times> 'a heap)" where
  "sort_comp lib cmp = mutate (vec_sort (std_sort lib) cmp)"

definition stable_sort :: "cow \<Rightarrow> ('a::ord) heap \<Rightarrow> error + (cow \<times> 'a heap)" where
  "stable_sort = mutate (vec_sort sort_by (\<lambda>a b. a < b))"

definition stable_sort_comp :: "('a \<Rightarrow> 'a \<Rightarrow> bool) \<Rightarrow> cow \<Rightarrow> 'a heap \<Rightarrow> error + (cow \<times> 'a heap)" where
  "stable_sort_comp cmp = mutate (vec_sort sort_by cmp)"

text \<open>
  Swapping with a plain vector: the copy and \<open>other\<close> exchange their contents; the
  caller's vector comes back as the first component.
\<close>

definition swap_vec :: "'a vec \<Rightarrow> cow \<Rightarrow> 'a heap \<Rightarrow> error + ('a vec \<times> cow \<times> 'a heap)" where
  "swap_vec other c h =
     (case copy_current (shared_container c) h of
        Inl e \<Rightarrow> Inl e
      | Inr (copied_container, h1) \<Rightarrow>
          (case buffer h1 copied_container of
             None \<Rightarrow> Inl Undefined_behaviour
           | Some v \<Rightarrow>
               (let (c', h2) = publish copied_container c (set_obj copied_container other h1)
                in Inr (v, c', h2))))"

text \<open>
  Swapping two containers: both buffers are copied, the copies exchange their contents,
  and each container publishes its copy. The two containers are two objects; with one
  object on both sides the second \<^verbatim>\<open>lock_guard\<close> would lock a mutex its thread
  already holds.
\<close>

definition swap_cow :: "cow \<Rightarrow> cow \<Rightarrow> 'a heap \<Rightarrow> error + (cow \<times> cow \<times> 'a heap)" where
  "swap_cow c other h =
     (case copy_current (shared_container c) h of
        Inl e \<Rightarrow> Inl e
      | Inr (copied_container, h1) \<Rightarrow>
          (case copy_current (shared_container other) h1 of
             Inl e \<Rightarrow> Inl e
           | Inr (other_copied_container, h2) \<Rightarrow>
               (case (buffer h2 copied_container, buffer h2 other_copied_container) of
                  (Some v, Some w) \<Rightarrow>
                    (let h3 = set_obj other_copied_container v (set_obj copied_container w h2);
                         (c', h4) = publish copied_container c h3;
                         (other', h5) = publish other_copied_container other h4
                     in Inr (c', other', h5))
                | _ \<Rightarrow> Inl Undefined_behaviour)))"


section \<open>Assignment operators\<close>

text \<open>
  The assignment operators build the new buffer directly, without copying the current
  one, and assign it to \<^verbatim>\<open>_shared_container\<close>. From a plain vector by copy and by
  move (the caller's vector, left empty, comes back as the first component), and from an
  initializer list:
\<close>

definition operator_assign_vec :: "'a vec \<Rightarrow> cow \<Rightarrow> 'a heap \<Rightarrow> cow \<times> 'a heap" where
  "operator_assign_vec other c h =
     (let (p, h1) = make_shared (vec_copy other) h
      in publish p c h1)"

definition operator_assign_vec_move :: "'a vec \<Rightarrow> cow \<Rightarrow> 'a heap \<Rightarrow> 'a vec \<times> cow \<times> 'a heap" where
  "operator_assign_vec_move other c h =
     (let (p, h1) = make_shared other h;
          (c', h2) = publish p c h1
      in (\<lparr>elems = [], cap = 0\<rparr>, c', h2))"

definition operator_assign_list :: "'a list \<Rightarrow> cow \<Rightarrow> 'a heap \<Rightarrow> cow \<times> 'a heap" where
  "operator_assign_list xs c h =
     (let (p, h1) = make_shared \<lparr>elems = xs, cap = length xs\<rparr> h
      in publish p c h1)"

text \<open>
  From another container: \<^verbatim>\<open>*(other.lock()._shared_container)\<close> is read through a
  temporary snapshot of \<open>other\<close> that lives until the assignment is done. The copy
  assignment copies that vector. The move assignment moves out of it: the new buffer
  takes its elements and capacity, and the vector \<open>other\<close> shares is left empty, in
  place.
\<close>

definition operator_assign_cow :: "cow \<Rightarrow> cow \<Rightarrow> 'a heap \<Rightarrow> error + (cow \<times> 'a heap)" where
  "operator_assign_cow other c h =
     (let (s, h1) = lock other h
      in case buffer h1 (snapshot_container s) of
           None \<Rightarrow> Inl Undefined_behaviour
         | Some w \<Rightarrow>
             (let (p, h2) = make_shared (vec_copy w) h1;
                  (c', h3) = publish p c h2
              in Inr (c', snapshot_release s h3)))"

definition operator_move_assign_cow :: "cow \<Rightarrow> cow \<Rightarrow> 'a heap \<Rightarrow> error + (cow \<times> 'a heap)" where
  "operator_move_assign_cow other c h =
     (let (s, h1) = lock other h
      in case buffer h1 (snapshot_container s) of
           None \<Rightarrow> Inl Undefined_behaviour
         | Some w \<Rightarrow>
             (let (p, h2) = make_shared w h1;
                  h3 = set_obj (snapshot_container s) \<lparr>elems = [], cap = 0\<rparr> h2;
                  (c', h4) = publish p c h3
              in Inr (c', snapshot_release s h4)))"

text \<open>
  The move constructor builds its buffer the same way, from the container it is given:
  \<^verbatim>\<open>std::make_shared<container_type>(std::move(*(other.lock()._shared_container)))\<close>.
  A vector that has been moved from is empty.
\<close>

definition move_construct :: "cow \<Rightarrow> 'a heap \<Rightarrow> error + (cow \<times> 'a heap)" where
  "move_construct other h =
     (let (s, h1) = lock other h
      in case buffer h1 (snapshot_container s) of
           None \<Rightarrow> Inl Undefined_behaviour
         | Some w \<Rightarrow>
             (let (p, h2) = make_shared w h1;
                  h3 = set_obj (snapshot_container s) \<lparr>elems = [], cap = 0\<rparr> h2
              in Inr (\<lparr>shared_container = p\<rparr>, snapshot_release s h3)))"


section \<open>Value-search mutators\<close>

text \<open>
  The single-element variants search the current buffer first and copy only once a
  match (or, for \<^verbatim>\<open>push_back_if_absent\<close>, its absence) is known.
\<close>

definition replace_if :: "('a \<Rightarrow> bool) \<Rightarrow> 'a \<Rightarrow> cow \<Rightarrow> 'a heap \<Rightarrow> error + (bool \<times> cow \<times> 'a heap)" where
  "replace_if pred val c h =
     (case buffer h (shared_container c) of
        None \<Rightarrow> Inl Undefined_behaviour
      | Some v \<Rightarrow>
          (let it = std_find_if pred (elems v)
           in if it = length (elems v) then Inr (False, c, h)
              else (case mutate (vec_set it val) c h of
                      Inl e \<Rightarrow> Inl e
                    | Inr (c', h') \<Rightarrow> Inr (True, c', h'))))"

definition replace :: "'a \<Rightarrow> 'a \<Rightarrow> cow \<Rightarrow> 'a heap \<Rightarrow> error + (bool \<times> cow \<times> 'a heap)" where
  "replace old_value new_value c h =
     (case buffer h (shared_container c) of
        None \<Rightarrow> Inl Undefined_behaviour
      | Some v \<Rightarrow>
          (let it = std_find old_value (elems v)
           in if it = length (elems v) then Inr (False, c, h)
              else (case mutate (vec_set it new_value) c h of
                      Inl e \<Rightarrow> Inl e
                    | Inr (c', h') \<Rightarrow> Inr (True, c', h'))))"

definition erase_if :: "('a \<Rightarrow> bool) \<Rightarrow> cow \<Rightarrow> 'a heap \<Rightarrow> error + (bool \<times> cow \<times> 'a heap)" where
  "erase_if pred c h =
     (case buffer h (shared_container c) of
        None \<Rightarrow> Inl Undefined_behaviour
      | Some v \<Rightarrow>
          (let it = std_find_if pred (elems v)
           in if it = length (elems v) then Inr (False, c, h)
              else (case mutate (vec_erase it) c h of
                      Inl e \<Rightarrow> Inl e
                    | Inr (c', h') \<Rightarrow> Inr (True, c', h'))))"

definition erase :: "'a \<Rightarrow> cow \<Rightarrow> 'a heap \<Rightarrow> error + (bool \<times> cow \<times> 'a heap)" where
  "erase val c h =
     (case buffer h (shared_container c) of
        None \<Rightarrow> Inl Undefined_behaviour
      | Some v \<Rightarrow>
          (let it = std_find val (elems v)
           in if it = length (elems v) then Inr (False, c, h)
              else (case mutate (vec_erase it) c h of
                      Inl e \<Rightarrow> Inl e
                    | Inr (c', h') \<Rightarrow> Inr (True, c', h'))))"

definition push_back_if_absent :: "'a \<Rightarrow> cow \<Rightarrow> 'a heap \<Rightarrow> error + (bool \<times> cow \<times> 'a heap)" where
  "push_back_if_absent val c h =
     (case buffer h (shared_container c) of
        None \<Rightarrow> Inl Undefined_behaviour
      | Some v \<Rightarrow>
          (let it = std_find val (elems v)
           in if it \<noteq> length (elems v) then Inr (False, c, h)
              else (case mutate (vec_push_back val) c h of
                      Inl e \<Rightarrow> Inl e
                    | Inr (c', h') \<Rightarrow> Inr (True, c', h'))))"

text \<open>
  \<^verbatim>\<open>erase_all\<close> and \<^verbatim>\<open>erase_all_if\<close> copy first and then run the
  remove-erase idiom on the copy; the count is the length of the erased tail.
\<close>

definition erase_all_if :: "('a \<Rightarrow> bool) \<Rightarrow> cow \<Rightarrow> 'a heap \<Rightarrow> error + (nat \<times> cow \<times> 'a heap)" where
  "erase_all_if pred c h =
     (case copy_current (shared_container c) h of
        Inl e \<Rightarrow> Inl e
      | Inr (copied_container, h1) \<Rightarrow>
          (case buffer h1 copied_container of
             None \<Rightarrow> Inl Undefined_behaviour
           | Some v \<Rightarrow>
               (let (it, xs) = std_remove_if pred (elems v);
                    h2 = set_obj copied_container (v\<lparr>elems := xs\<rparr>) h1;
                    result = length xs - it
                in case update_obj (vec_erase_range it (length xs)) copied_container h2 of
                     Inl e \<Rightarrow> Inl e
                   | Inr h3 \<Rightarrow>
                       (let (c', h4) = publish copied_container c h3
                        in Inr (result, c', h4)))))"

definition erase_all :: "'a \<Rightarrow> cow \<Rightarrow> 'a heap \<Rightarrow> error + (nat \<times> cow \<times> 'a heap)" where
  "erase_all val c h =
     (case copy_current (shared_container c) h of
        Inl e \<Rightarrow> Inl e
      | Inr (copied_container, h1) \<Rightarrow>
          (case buffer h1 copied_container of
             None \<Rightarrow> Inl Undefined_behaviour
           | Some v \<Rightarrow>
               (let (it, xs) = std_remove val (elems v);
                    h2 = set_obj copied_container (v\<lparr>elems := xs\<rparr>) h1;
                    result = length xs - it
                in case update_obj (vec_erase_range it (length xs)) copied_container h2 of
                     Inl e \<Rightarrow> Inl e
                   | Inr h3 \<Rightarrow>
                       (let (c', h4) = publish copied_container c h3
                        in Inr (result, c', h4)))))"

text \<open>
  The lazy bulk variants start with \<^verbatim>\<open>copied_container = _shared_container\<close>, one
  more reference to the current buffer, and replace it by a real copy at the first
  qualifying element (\<^verbatim>\<open>result++ == 0\<close>). Assigning the copy to
  \<^verbatim>\<open>copied_container\<close> gives up the reference it held.
\<close>

definition first_copy :: "addr \<Rightarrow> 'a heap \<Rightarrow> error + (addr \<times> 'a heap)" where
  "first_copy copied_container h =
     (case copy_current copied_container h of
        Inl e \<Rightarrow> Inl e
      | Inr (p, h1) \<Rightarrow> Inr (p, release copied_container h1))"

text \<open>
  The loop of \<^verbatim>\<open>replace_all_if\<close>. \<open>first\<close> and \<open>last'\<close> are the offsets of the
  two iterators from \<^verbatim>\<open>begin()\<close>; they point into the buffer of
  \<^verbatim>\<open>copied_container\<close>, before the copy (when that is the current buffer) and
  after it (they are rebased). \<open>first\<close> starts at \<open>begin()\<close> and never passes
  \<open>last'\<close>, so \<^verbatim>\<open>first != last\<close> is \<open>first < last'\<close>.
\<close>

function replace_all_if_loop ::
  "('a \<Rightarrow> bool) \<Rightarrow> 'a \<Rightarrow> nat \<Rightarrow> nat \<Rightarrow> addr \<Rightarrow> nat \<Rightarrow> 'a heap \<Rightarrow> error + (addr \<times> nat \<times> 'a heap)" where
  "replace_all_if_loop pred val first last' copied_container result h =
     (if first < last' then
        (case buffer h copied_container of
           None \<Rightarrow> Inl Undefined_behaviour
         | Some v \<Rightarrow>
             (case vec_index first v of
                Inl e \<Rightarrow> Inl e
              | Inr x \<Rightarrow>
                  if pred x then
                    (case (if result = 0 then first_copy copied_container h
                           else Inr (copied_container, h)) of
                       Inl e \<Rightarrow> Inl e
                     | Inr (copied_container', h1) \<Rightarrow>
                         (case update_obj (vec_set first val) copied_container' h1 of
                            Inl e \<Rightarrow> Inl e
                          | Inr h2 \<Rightarrow>
                              replace_all_if_loop pred val (Suc first) last'
                                copied_container' (Suc result) h2))
                  else replace_all_if_loop pred val (Suc first) last'
                         copied_container result h))
      else Inr (copied_container, result, h))"
  by pat_completeness auto
termination
  by (relation "measure (\<lambda>(pred, val, first, last', copied_container, result, h). last' - first)")
     auto

definition replace_all_if :: "('a \<Rightarrow> bool) \<Rightarrow> 'a \<Rightarrow> cow \<Rightarrow> 'a heap \<Rightarrow> error + (nat \<times> cow \<times> 'a heap)" where
  "replace_all_if pred val c h =
     (case buffer h (shared_container c) of
        None \<Rightarrow> Inl Undefined_behaviour
      | Some v \<Rightarrow>
          (case replace_all_if_loop pred val 0 (length (elems v)) (shared_container c) 0
                  (acquire (shared_container c) h) of
             Inl e \<Rightarrow> Inl e
           | Inr (copied_container, result, h1) \<Rightarrow>
               (let (c', h2) = publish copied_container c h1
                in Inr (result, c', h2))))"

function replace_all_loop ::
  "'a \<Rightarrow> 'a \<Rightarrow> nat \<Rightarrow> nat \<Rightarrow> addr \<Rightarrow> nat \<Rightarrow> 'a heap \<Rightarrow> error + (addr \<times> nat \<times> 'a heap)" where
  "replace_all_loop old_value new_value first last' copied_container result h =
     (if first < last' then
        (case buffer h copied_container of
           None \<Rightarrow> Inl Undefined_behaviour
         | Some v \<Rightarrow>
             (case vec_index first v of
                Inl e \<Rightarrow> Inl e
              | Inr x \<Rightarrow>
                  if x = old_value then
                    (case (if result = 0 then first_copy copied_container h
                           else Inr (copied_container, h)) of
                       Inl e \<Rightarrow> Inl e
                     | Inr (copied_container', h1) \<Rightarrow>
                         (case update_obj (vec_set first new_value) copied_container' h1 of
                            Inl e \<Rightarrow> Inl e
                          | Inr h2 \<Rightarrow>
                              replace_all_loop old_value new_value (Suc first) last'
                                copied_container' (Suc result) h2))
                  else replace_all_loop old_value new_value (Suc first) last'
                         copied_container result h))
      else Inr (copied_container, result, h))"
  by pat_completeness auto
termination
  by (relation "measure (\<lambda>(old_value, new_value, first, last', copied_container, result, h). last' - first)")
     auto

definition replace_all :: "'a \<Rightarrow> 'a \<Rightarrow> cow \<Rightarrow> 'a heap \<Rightarrow> error + (nat \<times> cow \<times> 'a heap)" where
  "replace_all old_value new_value c h =
     (case buffer h (shared_container c) of
        None \<Rightarrow> Inl Undefined_behaviour
      | Some v \<Rightarrow>
          (case replace_all_loop old_value new_value 0 (length (elems v)) (shared_container c) 0
                  (acquire (shared_container c) h) of
             Inl e \<Rightarrow> Inl e
           | Inr (copied_container, result, h1) \<Rightarrow>
               (let (c', h2) = publish copied_container c h1
                in Inr (result, c', h2))))"

declare replace_all_if_loop.simps [simp del]

declare replace_all_loop.simps [simp del]

text \<open>
  The ranged \<^verbatim>\<open>push_back_if_absent\<close> walks the input range; each element is looked
  up in the buffer of \<^verbatim>\<open>copied_container\<close>, which already holds the elements added
  so far.
\<close>

fun push_back_if_absent_loop ::
  "'a list \<Rightarrow> addr \<Rightarrow> nat \<Rightarrow> 'a heap \<Rightarrow> error + (addr \<times> nat \<times> 'a heap)" where
  "push_back_if_absent_loop [] copied_container result h = Inr (copied_container, result, h)"
| "push_back_if_absent_loop (x # xs) copied_container result h =
     (case buffer h copied_container of
        None \<Rightarrow> Inl Undefined_behaviour
      | Some v \<Rightarrow>
          if std_find x (elems v) = length (elems v) then
            (case (if result = 0 then first_copy copied_container h
                   else Inr (copied_container, h)) of
               Inl e \<Rightarrow> Inl e
             | Inr (copied_container', h1) \<Rightarrow>
                 (case update_obj (vec_push_back x) copied_container' h1 of
                    Inl e \<Rightarrow> Inl e
                  | Inr h2 \<Rightarrow> push_back_if_absent_loop xs copied_container' (Suc result) h2))
          else push_back_if_absent_loop xs copied_container result h)"

definition push_back_range_if_absent :: "'a list \<Rightarrow> cow \<Rightarrow> 'a heap \<Rightarrow> error + (nat \<times> cow \<times> 'a heap)" where
  "push_back_range_if_absent xs c h =
     (case push_back_if_absent_loop xs (shared_container c) 0 (acquire (shared_container c) h) of
        Inl e \<Rightarrow> Inl e
      | Inr (copied_container, result, h1) \<Rightarrow>
          (let (c', h2) = publish copied_container c h1
           in Inr (result, c', h2)))"


section \<open>Sequences of mutations\<close>

text \<open>
  One constructor for each mutator and each assignment operator of the container, and
  a second container \<open>other\<close> for the two-container \<^verbatim>\<open>swap\<close>, called from either
  side, and for the assignments from a container.
\<close>

datatype 'a mutation =
    Assign nat 'a
  | Assign_range "'a list"
  | Reserve nat
  | Shrink_to_fit
  | Clear
  | Insert_at nat 'a
  | Insert_count_at nat nat 'a
  | Insert_range_at nat "'a list"
  | Emplace_at nat 'a
  | Replace 'a 'a
  | Replace_all 'a 'a
  | Replace_at nat 'a
  | Replace_if "'a \<Rightarrow> bool" 'a
  | Replace_all_if "'a \<Rightarrow> bool" 'a
  | Erase 'a
  | Erase_all 'a
  | Erase_at nat
  | Erase_range nat nat
  | Erase_if "'a \<Rightarrow> bool"
  | Erase_all_if "'a \<Rightarrow> bool"
  | Push_back 'a
  | Push_back_range "'a list"
  | Push_back_if_absent 'a
  | Push_back_range_if_absent "'a list"
  | Emplace_back 'a
  | Pop_back
  | Resize nat 'a
  | Swap_vec "'a vec"
  | Swap_cow
  | Swap_cow_from_other
  | Sort
  | Sort_comp "'a \<Rightarrow> 'a \<Rightarrow> bool"
  | Stable_sort
  | Stable_sort_comp "'a \<Rightarrow> 'a \<Rightarrow> bool"
  | Operator_assign_vec "'a vec"
  | Operator_assign_vec_move "'a vec"
  | Operator_assign_list "'a list"
  | Operator_assign_cow
  | Operator_move_assign_cow

definition returning_void :: "cow \<Rightarrow> error + (cow \<times> 'a heap) \<Rightarrow> error + (cow \<times> cow \<times> 'a heap)" where
  "returning_void other r =
     (case r of Inl e \<Rightarrow> Inl e | Inr (c', h') \<Rightarrow> Inr (c', other, h'))"

definition returning :: "cow \<Rightarrow> error + ('r \<times> cow \<times> 'a heap) \<Rightarrow> error + (cow \<times> cow \<times> 'a heap)" where
  "returning other r =
     (case r of Inl e \<Rightarrow> Inl e | Inr (x, c', h') \<Rightarrow> Inr (c', other, h'))"

fun exec :: "('a::linorder) library \<Rightarrow> 'a mutation \<Rightarrow> cow \<Rightarrow> cow \<Rightarrow> 'a heap \<Rightarrow> error + (cow \<times> cow \<times> 'a heap)" where
  "exec lib (Assign count val) c other h = returning_void other (assign lib count val c h)"
| "exec lib (Assign_range xs) c other h = returning_void other (assign_range xs c h)"
| "exec lib (Reserve new_cap) c other h = returning_void other (reserve lib new_cap c h)"
| "exec lib Shrink_to_fit c other h = returning_void other (shrink_to_fit c h)"
| "exec lib Clear c other h = returning_void other (clear c h)"
| "exec lib (Insert_at i val) c other h = returning_void other (insert_at i val c h)"
| "exec lib (Insert_count_at i count val) c other h =
     returning_void other (insert_count_at lib i count val c h)"
| "exec lib (Insert_range_at i xs) c other h = returning_void other (insert_range_at i xs c h)"
| "exec lib (Emplace_at i val) c other h = returning_void other (emplace_at i val c h)"
| "exec lib (Replace old_value new_value) c other h =
     returning other (replace old_value new_value c h)"
| "exec lib (Replace_all old_value new_value) c other h =
     returning other (replace_all old_value new_value c h)"
| "exec lib (Replace_at i val) c other h = returning_void other (replace_at i val c h)"
| "exec lib (Replace_if pred val) c other h = returning other (replace_if pred val c h)"
| "exec lib (Replace_all_if pred val) c other h = returning other (replace_all_if pred val c h)"
| "exec lib (Erase val) c other h = returning other (erase val c h)"
| "exec lib (Erase_all val) c other h = returning other (erase_all val c h)"
| "exec lib (Erase_at i) c other h = returning_void other (erase_at i c h)"
| "exec lib (Erase_range first last') c other h = returning_void other (erase_range first last' c h)"
| "exec lib (Erase_if pred) c other h = returning other (erase_if pred c h)"
| "exec lib (Erase_all_if pred) c other h = returning other (erase_all_if pred c h)"
| "exec lib (Push_back val) c other h = returning_void other (push_back val c h)"
| "exec lib (Push_back_range xs) c other h = returning_void other (push_back_range xs c h)"
| "exec lib (Push_back_if_absent val) c other h = returning other (push_back_if_absent val c h)"
| "exec lib (Push_back_range_if_absent xs) c other h =
     returning other (push_back_range_if_absent xs c h)"
| "exec lib (Emplace_back val) c other h = returning_void other (emplace_back val c h)"
| "exec lib Pop_back c other h = returning_void other (pop_back c h)"
| "exec lib (Resize count val) c other h = returning_void other (resize lib count val c h)"
| "exec lib (Swap_vec w) c other h = returning other (swap_vec w c h)"
| "exec lib Swap_cow c other h = swap_cow c other h"
| "exec lib Swap_cow_from_other c other h =
     (case swap_cow other c h of
        Inl e \<Rightarrow> Inl e
      | Inr (other', c', h') \<Rightarrow> Inr (c', other', h'))"
| "exec lib Sort c other h = returning_void other (sort_cow lib c h)"
| "exec lib (Sort_comp cmp) c other h = returning_void other (sort_comp lib cmp c h)"
| "exec lib Stable_sort c other h = returning_void other (stable_sort c h)"
| "exec lib (Stable_sort_comp cmp) c other h = returning_void other (stable_sort_comp cmp c h)"
| "exec lib (Operator_assign_vec w) c other h =
     returning_void other (Inr (operator_assign_vec w c h))"
| "exec lib (Operator_assign_vec_move w) c other h =
     returning other (Inr (operator_assign_vec_move w c h))"
| "exec lib (Operator_assign_list xs) c other h =
     returning_void other (Inr (operator_assign_list xs c h))"
| "exec lib Operator_assign_cow c other h = returning_void other (operator_assign_cow other c h)"
| "exec lib Operator_move_assign_cow c other h =
     returning_void other (operator_move_assign_cow other c h)"

text \<open>
  A sequence of calls. A call that throws has changed nothing, and the caller goes on
  with the next one; a call without defined behaviour ends the sequence.
\<close>

fun run :: "('a::linorder) library \<Rightarrow> 'a mutation list \<Rightarrow> cow \<Rightarrow> cow \<Rightarrow> 'a heap \<Rightarrow> error + (cow \<times> cow \<times> 'a heap)" where
  "run lib [] c other h = Inr (c, other, h)"
| "run lib (m # ms) c other h =
     (case exec lib m c other h of
        Inl e \<Rightarrow> if e = Undefined_behaviour then Inl e else run lib ms c other h
      | Inr (c', other', h') \<Rightarrow> run lib ms c' other' h')"


section \<open>Example states\<close>

text \<open>The container built from \<^verbatim>\<open>{1, 3, 3, 5}\<close> on an empty heap.\<close>

definition example_cow :: cow where
  "example_cow = \<lparr>shared_container = 0\<rparr>"

definition example_vec :: "int vec" where
  "example_vec = \<lparr>elems = [1, 3, 3, 5], cap = 4\<rparr>"

definition example_heap :: "int heap" where
  "example_heap = [Some (example_vec, 0)]"

text \<open>The element sequence a container shows to a reader.\<close>

definition contents :: "cow \<Rightarrow> 'a heap \<Rightarrow> 'a list option" where
  "contents c h = map_option elems (buffer h (shared_container c))"


text \<open>Two containers, \<^verbatim>\<open>A = {1, 2}\<close> and \<^verbatim>\<open>B = {3, 4}\<close>, on one heap.\<close>

definition example_A :: cow where
  "example_A = \<lparr>shared_container = 0\<rparr>"

definition example_B :: cow where
  "example_B = \<lparr>shared_container = 1\<rparr>"

definition example_heap_AB :: "int heap" where
  "example_heap_AB =
     [Some (\<lparr>elems = [1, 2], cap = 2\<rparr>, 0), Some (\<lparr>elems = [3, 4], cap = 2\<rparr>, 0)]"


text \<open>
  A snapshot of \<open>A\<close>, a sequence of mutations of \<open>A\<close>, and the state they end in.
\<close>

definition example_snapshot :: snapshot where
  "example_snapshot = \<lparr>snapshot_container = 0\<rparr>"

definition example_heap_locked :: "int heap" where
  "example_heap_locked =
     [Some (\<lparr>elems = [1, 2], cap = 2\<rparr>, 1), Some (\<lparr>elems = [3, 4], cap = 2\<rparr>, 0)]"

text \<open>
  A small library: its vectors hold at most 1000 elements and its \<^verbatim>\<open>std::sort\<close>
  happens to be stable. The third call of the sequence asks for more than
  \<^verbatim>\<open>max_size()\<close> and throws.
\<close>

definition example_library :: "int library" where
  "example_library = \<lparr>max_size = 1000, std_sort = sort_by\<rparr>"

definition example_run :: "int mutation list" where
  "example_run =
     [Push_back 7, Erase_all 1, Reserve 1001, Swap_cow, Clear,
      Push_back_range [4, 2, 6], Sort, Replace_all 4 9, Operator_move_assign_cow,
      Insert_at 1 8, Swap_cow_from_other, Operator_assign_list [5, 5], Pop_back]"

definition example_heap_final :: "int heap" where
  "example_heap_final =
     [Some (\<lparr>elems = [1, 2], cap = 2\<rparr>, 0),
      Some (\<lparr>elems = [2, 8, 7], cap = 3\<rparr>, 0), None,
      Some (\<lparr>elems = [5], cap = 2\<rparr>, 0), None]"


section \<open>Specification functions\<close>

text \<open>
  What a replacing loop has made of a sequence once its iterator stands at
  \<open>first\<close>: the elements before it are done, the qualifying ones behind it will be
  replaced.
\<close>

definition replaced :: "('a \<Rightarrow> bool) \<Rightarrow> 'a \<Rightarrow> nat \<Rightarrow> 'a list \<Rightarrow> 'a list" where
  "replaced pred val first xs =
     take first xs @ map (\<lambda>x. if pred x then val else x) (drop first xs)"


text \<open>
  What a call may do to the container and the heap: nothing at all, or publish a buffer
  at the address that was free, give up the reference to the old buffer, and leave
  every other cell alone.
\<close>

definition republished :: "cow \<Rightarrow> 'a heap \<Rightarrow> cow \<Rightarrow> 'a heap \<Rightarrow> bool" where
  "republished c h c' h' \<longleftrightarrow>
     (c' = c \<and> h' = h) \<or>
     (shared_container c' = free_slot h \<and>
      (\<forall>q. q \<noteq> free_slot h \<longrightarrow> cell h' q = cell (release (shared_container c) h) q))"

text \<open>
  The invariant that keeps a snapshot's buffer: the cell at \<open>s\<close> holds \<open>v\<close>, and
  besides the snapshot's own reference it counts one owner for each of the two
  containers that still refers to it.
\<close>

definition pinned :: "addr \<Rightarrow> 'a vec \<Rightarrow> cow \<Rightarrow> cow \<Rightarrow> 'a heap \<Rightarrow> bool" where
  "pinned s v c other h \<longleftrightarrow>
     (\<exists>k. cell h s = Some (v, k) \<and>
          (if shared_container c = s then 1 else 0) +
          (if shared_container other = s then 1 else 0) \<le> k)"


section \<open>Heap cells under the pointer operations\<close>

lemma cell_store [simp]: "cell (store a x h) b = (if b = a then x else cell h b)"
  by (auto simp: cell_def store_def nth_append nth_Cons')

lemma cell_free_slot [simp]: "cell h (free_slot h) = None"
  by (induction h rule: free_slot.induct) (auto simp: cell_def)

lemma store_unchanged: "cell h a = Some x \<Longrightarrow> store a (Some x) h = h"
  by (auto simp: cell_def store_def list_update_same_conv split: if_splits)

lemma store_store [simp]: "store a x (store a y h) = store a x h"
  by (simp add: store_def list_update_append)

lemma cell_acquire [simp]:
  "cell (acquire p h) q =
     (if q = p then map_option (\<lambda>(v, k). (v, Suc k)) (cell h p) else cell h q)"
  by (auto simp: acquire_def split: option.splits)

lemma cell_release [simp]:
  "cell (release p h) q =
     (if q = p
      then (case cell h p of None \<Rightarrow> None | Some (v, 0) \<Rightarrow> None | Some (v, Suc k) \<Rightarrow> Some (v, k))
      else cell h q)"
  by (auto simp: release_def split: option.splits nat.splits)

lemma cell_set_obj [simp]:
  "cell (set_obj p v h) q =
     (if q = p then map_option (\<lambda>(w, k). (v, k)) (cell h p) else cell h q)"
  by (auto simp: set_obj_def split: option.splits)

lemma release_acquire [simp]: "release p (acquire p h) = h"
  by (auto simp: release_def acquire_def store_unchanged split: option.splits nat.splits)

lemma make_shared_eq: "make_shared v h = (free_slot h, store (free_slot h) (Some (v, 0)) h)"
  by (simp add: make_shared_def Let_def)

lemma buffer_store [simp]:
  "buffer (store a x h) b = (if b = a then map_option fst x else buffer h b)"
  by (simp add: buffer_def)

lemma buffer_free_slot [simp]: "buffer h (free_slot h) = None"
  by (simp add: buffer_def)

lemma buffer_acquire [simp]: "buffer (acquire p h) q = buffer h q"
  by (cases "cell h p") (auto simp: buffer_def)

lemma buffer_set_obj [simp]:
  "buffer (set_obj p v h) q = (if q = p \<and> buffer h p \<noteq> None then Some v else buffer h q)"
  by (cases "cell h p") (auto simp: buffer_def)

lemma buffer_release_other [simp]: "q \<noteq> p \<Longrightarrow> buffer (release p h) q = buffer h q"
  by (simp add: buffer_def)

lemma set_obj_store [simp]: "set_obj p v (store p (Some (w, k)) h) = store p (Some (v, k)) h"
  by (simp add: set_obj_def)

lemma live_not_free: "buffer h p = Some v \<Longrightarrow> p \<noteq> free_slot h"
  by auto

lemma example_buffer: "buffer example_heap (shared_container example_cow) = Some example_vec"
  by (simp add: buffer_def cell_def example_heap_def example_cow_def)

lemma example_built:
  "cow_of_list [1, 3, 3, 5] [] = (example_cow, example_heap)
   \<and> cow_of_list [3, 4] (snd (cow_of_list [1, 2] [])) = (example_B, example_heap_AB)
   \<and> fst (cow_of_list [1, 2 :: int] []) = example_A"
  by code_simp


section \<open>The copy, mutate, publish protocol\<close>

lemma copy_current_eq:
  "buffer h p = Some v \<Longrightarrow>
   copy_current p h = Inr (free_slot h, store (free_slot h) (Some (vec_copy v, 0)) h)"
  by (simp add: copy_current_def make_shared_eq)

lemma update_obj_eq:
  "buffer h p = Some v \<Longrightarrow>
   update_obj f p h = (case f v of Inl e \<Rightarrow> Inl e | Inr v' \<Rightarrow> Inr (set_obj p v' h))"
  by (simp add: update_obj_def)

lemma mutate_eq:
  assumes "buffer h (shared_container c) = Some v"
  shows "mutate f c h =
     (case f (vec_copy v) of
        Inl e \<Rightarrow> Inl e
      | Inr v' \<Rightarrow> Inr (c\<lparr>shared_container := free_slot h\<rparr>,
                       release (shared_container c) (store (free_slot h) (Some (v', 0)) h)))"
  using assms
  by (simp add: mutate_def copy_current_eq update_obj_eq publish_def split: sum.splits)

lemma via_lock_eq:
  "buffer h (shared_container c) = Some v \<Longrightarrow> via_lock (snapshot_read f) c h = (f v, h)"
  by (simp add: via_lock_def lock_def snapshot_release_def snapshot_read_def)


section \<open>Searching\<close>

lemma std_find_if_le: "std_find_if pred xs \<le> length xs"
  by (induction xs) auto

lemma std_find_if_end: "std_find_if pred xs = length xs \<longleftrightarrow> (\<forall>x\<in>set xs. \<not> pred x)"
proof (induction xs)
  case Nil
  show ?case by simp
next
  case (Cons x xs)
  have "std_find_if pred xs \<le> length xs" by (rule std_find_if_le)
  with Cons show ?case by auto
qed

lemma std_find_end: "std_find val xs = length xs \<longleftrightarrow> val \<notin> set xs"
  by (auto simp: std_find_def std_find_if_end)


section \<open>Reading\<close>

text \<open>
  Claim C9. Bounds-checked read access: on a container or a snapshot of size \<open>N\<close>,
  \<^verbatim>\<open>at(n)\<close> with \<open>n \<ge> N\<close> throws \<^verbatim>\<open>std::out_of_range\<close> and leaves the state as
  it was (the container's \<^verbatim>\<open>at\<close> hands back the heap it was given; the snapshot's
  has no effect at all), and with \<open>n < N\<close> it returns the \<open>n\<close>-th element.
\<close>

theorem at_bounds_checked:
  assumes "buffer h (shared_container c) = Some v"
      and "buffer h (snapshot_container s) = Some w"
  shows "at_cow n c h =
           ((if n < length (elems v) then Inr (elems v ! n) else Inl Out_of_range), h)
         \<and> snapshot_at n s h =
           (if n < length (elems w) then Inr (elems w ! n) else Inl Out_of_range)"
  using assms
  by (simp add: at_cow_def snapshot_at_def via_lock_eq vec_at_def snapshot_read_def)

theorem at_bounds_checked_witness:
  "buffer example_heap (shared_container example_cow) = Some example_vec
   \<and> buffer example_heap (snapshot_container \<lparr>snapshot_container = 0\<rparr>) = Some example_vec
   \<and> at_cow 2 example_cow example_heap = (Inr 3, example_heap)
   \<and> at_cow 4 example_cow example_heap = (Inl Out_of_range, example_heap)
   \<and> snapshot_at 3 \<lparr>snapshot_container = 0\<rparr> example_heap = Inr 5
   \<and> snapshot_at 7 \<lparr>snapshot_container = 0\<rparr> example_heap = Inl Out_of_range"
proof -
  have b: "buffer example_heap (shared_container example_cow) = Some example_vec"
    by (rule example_buffer)
  have s: "buffer example_heap (snapshot_container \<lparr>snapshot_container = 0\<rparr>) = Some example_vec"
    using example_buffer by (simp add: example_cow_def)
  show ?thesis
    using b s at_bounds_checked [OF b s, of 2] at_bounds_checked [OF b s, of 4]
      at_bounds_checked [OF b s, of 3] at_bounds_checked [OF b s, of 7]
    by (simp add: example_vec_def)
qed


section \<open>Erasing by value\<close>

text \<open>
  Claim C7. No-op purity of \<^verbatim>\<open>erase(value)\<close>: when no element equals the value,
  the call returns false and hands back the container and the heap exactly as they
  were, so the container still refers to the very same buffer and nothing was
  allocated.
\<close>

theorem erase_absent_same_buffer:
  assumes "buffer h (shared_container c) = Some v"
      and "val \<notin> set (elems v)"
  shows "erase val c h = Inr (False, c, h)"
  using assms by (simp add: erase_def std_find_end)

theorem erase_absent_same_buffer_witness:
  "buffer example_heap (shared_container example_cow) = Some example_vec
   \<and> 9 \<notin> set (elems example_vec)
   \<and> erase 9 example_cow example_heap = Inr (False, example_cow, example_heap)"
proof -
  have n: "9 \<notin> set (elems example_vec)"
    by (simp add: example_vec_def)
  show ?thesis
    using example_buffer n erase_absent_same_buffer [OF example_buffer n] by simp
qed

text \<open>
  Claim C3, as stated, fails: on \<open>[1, 3, 3, 5]\<close> with a predicate matching 3,
  \<^verbatim>\<open>erase_if\<close> erases the first match only. The container then holds
  \<open>[1, 3, 5]\<close>, not \<open>[1, 5]\<close>, and the call returns \<^verbatim>\<open>true\<close>, not a count.
\<close>

theorem erase_if_erases_first_match_only:
  "erase_if ((=) 3) example_cow example_heap =
     Inr (True, \<lparr>shared_container = 1\<rparr>, [None, Some (\<lparr>elems = [1, 3, 5], cap = 4\<rparr>, 0)])
   \<and> contents \<lparr>shared_container = 1\<rparr> [None, Some (\<lparr>elems = [1, 3, 5], cap = 4\<rparr>, 0)]
       = Some [1, 3, 5 :: int]
   \<and> contents \<lparr>shared_container = 1\<rparr> [None, Some (\<lparr>elems = [1, 3, 5], cap = 4\<rparr>, 0)]
       \<noteq> Some [1, 5 :: int]"
  by code_simp

text \<open>
  Claim C3, amended: the scenario is that of \<^verbatim>\<open>erase_all_if\<close>. On
  \<open>[1, 3, 3, 5]\<close> with a predicate matching 3 it leaves the container holding
  \<open>[1, 5]\<close> and returns the count 2.
\<close>

theorem erase_all_if_scenario:
  "erase_all_if ((=) 3) example_cow example_heap =
     Inr (2, \<lparr>shared_container = 1\<rparr>, [None, Some (\<lparr>elems = [1, 5], cap = 4\<rparr>, 0)])
   \<and> contents \<lparr>shared_container = 1\<rparr> [None, Some (\<lparr>elems = [1, 5], cap = 4\<rparr>, 0)]
       = Some [1, 5 :: int]"
  by code_simp


section \<open>Clearing\<close>

lemma clear_eq:
  assumes "buffer h (shared_container c) = Some v"
  shows "clear c h =
     Inr (c\<lparr>shared_container := free_slot h\<rparr>,
          release (shared_container c)
            (store (free_slot h) (Some (\<lparr>elems = [], cap = cap v\<rparr>, 0)) h))"
proof -
  have ne: "shared_container c \<noteq> free_slot h"
    using assms by auto
  show ?thesis
    using assms ne
    by (simp add: clear_def get_allocator_def snapshot_get_allocator_def via_lock_eq
        make_shared_eq update_obj_eq vec_reserve_def publish_def)
qed

text \<open>
  Claim C10. After \<^verbatim>\<open>clear()\<close> on a container of capacity \<open>C\<close> the container is
  empty and its capacity is at least \<open>C\<close>: it refers to a fresh buffer, an empty
  vector in which the old capacity was reserved.
\<close>

theorem clear_keeps_capacity:
  assumes "buffer h (shared_container c) = Some v"
  shows "\<exists>c' h' v'. clear c h = Inr (c', h')
           \<and> shared_container c' \<noteq> shared_container c
           \<and> buffer h' (shared_container c') = Some v'
           \<and> elems v' = [] \<and> cap v \<le> cap v'
           \<and> size_cow c' h' = (Inr 0, h')
           \<and> capacity c' h' = (Inr (cap v'), h')"
proof -
  let ?p = "free_slot h"
  let ?v' = "\<lparr>elems = [], cap = cap v\<rparr> :: 'a vec"
  let ?c' = "c\<lparr>shared_container := ?p\<rparr>"
  let ?h' = "release (shared_container c) (store ?p (Some (?v', 0)) h)"
  have ne: "?p \<noteq> shared_container c"
    using live_not_free [OF assms] by simp
  have b: "buffer ?h' (shared_container ?c') = Some ?v'"
    using ne by simp
  have "size_cow ?c' ?h' = (Inr 0, ?h')"
    unfolding size_cow_def snapshot_size_def by (simp add: via_lock_eq [OF b])
  moreover have "capacity ?c' ?h' = (Inr (cap ?v'), ?h')"
    unfolding capacity_def snapshot_capacity_def by (simp add: via_lock_eq [OF b])
  ultimately show ?thesis
    using clear_eq [OF assms] b ne by auto
qed

theorem clear_keeps_capacity_witness:
  "buffer example_heap (shared_container example_cow) = Some example_vec
   \<and> (\<exists>c' h' v'. clear example_cow example_heap = Inr (c', h')
         \<and> buffer h' (shared_container c') = Some v'
         \<and> elems v' = [] \<and> 4 \<le> cap v'
         \<and> size_cow c' h' = (Inr 0, h'))"
  using example_buffer clear_keeps_capacity [OF example_buffer]
  by (auto simp: example_vec_def)


section \<open>Swapping two containers\<close>

lemma swap_cow_eq:
  assumes a: "buffer h (shared_container c) = Some v"
      and b: "buffer h (shared_container other) = Some w"
  shows "\<exists>c' other' h'. swap_cow c other h = Inr (c', other', h')
           \<and> buffer h' (shared_container c') = Some (vec_copy w)
           \<and> buffer h' (shared_container other') = Some (vec_copy v)"
proof -
  let ?p = "free_slot h"
  let ?h1 = "store ?p (Some (vec_copy v, 0)) h"
  let ?q = "free_slot ?h1"
  have pc: "?p \<noteq> shared_container c" and po: "?p \<noteq> shared_container other"
    using live_not_free [OF a] live_not_free [OF b] by simp_all
  have b1: "buffer ?h1 (shared_container other) = Some w"
    using b po by simp
  have a1: "buffer ?h1 (shared_container c) = Some v"
    using a pc by simp
  have p1: "buffer ?h1 ?p = Some (vec_copy v)"
    by simp
  have qp: "?q \<noteq> ?p" and qc: "?q \<noteq> shared_container c" and qo: "?q \<noteq> shared_container other"
    using live_not_free [OF p1] live_not_free [OF a1] live_not_free [OF b1] by simp_all
  show ?thesis
    using qp qc qo pc po
    by (simp add: swap_cow_def copy_current_eq [OF a] copy_current_eq [OF b1] publish_def)
qed

lemma contents_Some: "contents c h = Some xs \<longleftrightarrow> (\<exists>v. buffer h (shared_container c) = Some v \<and> elems v = xs)"
  by (auto simp: contents_def)

text \<open>
  Claim C8. Swap correctness: for two containers \<open>A\<close> and \<open>B\<close> holding \<open>xs\<close> and
  \<open>ys\<close>, after \<^verbatim>\<open>A.swap(B)\<close> the container \<open>A\<close> holds \<open>ys\<close> and \<open>B\<close> holds
  \<open>xs\<close>.
\<close>

theorem swap_exchanges_contents:
  assumes "contents a h = Some xs" and "contents b h = Some ys"
  shows "\<exists>a' b' h'. swap_cow a b h = Inr (a', b', h')
           \<and> contents a' h' = Some ys \<and> contents b' h' = Some xs"
proof -
  obtain v w where v: "buffer h (shared_container a) = Some v" "elems v = xs"
    and w: "buffer h (shared_container b) = Some w" "elems w = ys"
    using assms by (auto simp: contents_Some)
  show ?thesis
    using swap_cow_eq [OF v(1) w(1)] v(2) w(2)
    by (auto simp: contents_def vec_copy_def)
qed

theorem swap_exchanges_contents_witness:
  "contents example_A example_heap_AB = Some [1, 2]
   \<and> contents example_B example_heap_AB = Some [3, 4]
   \<and> (\<exists>a' b' h'. swap_cow example_A example_B example_heap_AB = Inr (a', b', h')
         \<and> contents a' h' = Some [3, 4] \<and> contents b' h' = Some [1, 2])"
proof -
  have a: "contents example_A example_heap_AB = Some [1, 2]"
    by (simp add: contents_def buffer_def cell_def example_A_def example_heap_AB_def)
  have b: "contents example_B example_heap_AB = Some [3, 4]"
    by (simp add: contents_def buffer_def cell_def example_B_def example_heap_AB_def)
  show ?thesis
    using a b swap_exchanges_contents [OF a b] by simp
qed


section \<open>Appending if absent\<close>

lemma push_back_if_absent_present:
  assumes "buffer h (shared_container c) = Some v" and "x \<in> set (elems v)"
  shows "push_back_if_absent x c h = Inr (False, c, h)"
  using assms by (simp add: push_back_if_absent_def std_find_end)

lemma push_back_if_absent_absent:
  assumes "buffer h (shared_container c) = Some v" and "x \<notin> set (elems v)"
  shows "push_back_if_absent x c h =
           Inr (True, c\<lparr>shared_container := free_slot h\<rparr>,
                release (shared_container c)
                  (store (free_slot h)
                     (Some (\<lparr>elems = elems v @ [x], cap = grown 1 (vec_copy v)\<rparr>, 0)) h))"
  using assms
  by (simp add: push_back_if_absent_def std_find_end mutate_eq vec_push_back_def vec_copy_def)

text \<open>
  Claim C6. Idempotence of \<^verbatim>\<open>push_back_if_absent\<close>: of two calls in a row with the
  same value, the first grows the container by one element exactly when it returns
  true, and the second returns false and changes nothing; so the size grows by at most
  one across the two calls.
\<close>

theorem push_back_if_absent_idempotent:
  assumes "buffer h (shared_container c) = Some v"
  shows "\<exists>b c1 h1 v1. push_back_if_absent x c h = Inr (b, c1, h1)
           \<and> buffer h1 (shared_container c1) = Some v1
           \<and> length (elems v1) = length (elems v) + (if b then 1 else 0)
           \<and> length (elems v1) \<le> length (elems v) + 1
           \<and> push_back_if_absent x c1 h1 = Inr (False, c1, h1)"
proof (cases "x \<in> set (elems v)")
  case True
  then show ?thesis
    using assms push_back_if_absent_present [OF assms True] by auto
next
  case False
  let ?v1 = "\<lparr>elems = elems v @ [x], cap = grown 1 (vec_copy v)\<rparr>"
  let ?c1 = "c\<lparr>shared_container := free_slot h\<rparr>"
  let ?h1 = "release (shared_container c) (store (free_slot h) (Some (?v1, 0)) h)"
  have ne: "free_slot h \<noteq> shared_container c"
    using live_not_free [OF assms] by simp
  have b1: "buffer ?h1 (shared_container ?c1) = Some ?v1"
    using ne by simp
  have "x \<in> set (elems ?v1)" by simp
  then have "push_back_if_absent x ?c1 ?h1 = Inr (False, ?c1, ?h1)"
    by (rule push_back_if_absent_present [OF b1])
  then show ?thesis
    using push_back_if_absent_absent [OF assms False] b1 by auto
qed

theorem push_back_if_absent_idempotent_witness:
  "buffer example_heap (shared_container example_cow) = Some example_vec
   \<and> (\<exists>b c1 h1 v1. push_back_if_absent 7 example_cow example_heap = Inr (b, c1, h1)
         \<and> buffer h1 (shared_container c1) = Some v1
         \<and> length (elems v1) \<le> 5
         \<and> push_back_if_absent 7 c1 h1 = Inr (False, c1, h1))"
  using example_buffer push_back_if_absent_idempotent [OF example_buffer, of 7]
  by (auto simp: example_vec_def)


section \<open>Index-based mutators\<close>

text \<open>
  Claim C2, as stated, fails: the index-based mutators do not check the index. On a
  container of size 4, \<^verbatim>\<open>insert_at(5, 9)\<close>, \<^verbatim>\<open>replace_at(4, 9)\<close>,
  \<^verbatim>\<open>erase_at(4)\<close> and \<^verbatim>\<open>erase_range(3, 5)\<close> hand the copy to the unchecked vector
  operation outside its precondition; no \<^verbatim>\<open>std::out_of_range\<close> is thrown.
\<close>

theorem index_mutators_signal_no_error:
  "insert_at 5 9 example_cow example_heap = Inl Undefined_behaviour
   \<and> insert_at 5 9 example_cow example_heap \<noteq> Inl Out_of_range
   \<and> replace_at 4 9 example_cow example_heap = Inl Undefined_behaviour
   \<and> replace_at 4 9 example_cow example_heap \<noteq> Inl Out_of_range
   \<and> erase_at 4 example_cow example_heap = Inl Undefined_behaviour
   \<and> erase_at 4 example_cow example_heap \<noteq> Inl Out_of_range
   \<and> erase_range 3 5 example_cow example_heap = Inl Undefined_behaviour
   \<and> erase_range 3 5 example_cow example_heap \<noteq> Inl Out_of_range"
  by code_simp

text \<open>
  Claim C2, amended: an index-based mutator called with an out-of-range index (greater
  than the size for \<^verbatim>\<open>insert_at\<close>, greater than or equal to the size for
  \<^verbatim>\<open>replace_at\<close> and \<^verbatim>\<open>erase_at\<close>, a range that is reversed or ends behind the
  size for \<^verbatim>\<open>erase_range\<close>) signals no error: its behaviour is undefined, and that
  happens for exactly these indices. No index makes any of them throw
  \<^verbatim>\<open>std::out_of_range\<close>.
\<close>

theorem index_mutators_unchecked:
  assumes "buffer h (shared_container c) = Some v"
  shows "(insert_at i x c h = Inl Undefined_behaviour \<longleftrightarrow> length (elems v) < i)
       \<and> (replace_at i x c h = Inl Undefined_behaviour \<longleftrightarrow> length (elems v) \<le> i)
       \<and> (erase_at i c h = Inl Undefined_behaviour \<longleftrightarrow> length (elems v) \<le> i)
       \<and> (erase_range i j c h = Inl Undefined_behaviour \<longleftrightarrow> j < i \<or> length (elems v) < j)
       \<and> insert_at i x c h \<noteq> Inl Out_of_range
       \<and> replace_at i x c h \<noteq> Inl Out_of_range
       \<and> erase_at i c h \<noteq> Inl Out_of_range
       \<and> erase_range i j c h \<noteq> Inl Out_of_range"
  using assms
  by (auto simp: insert_at_def replace_at_def erase_at_def erase_range_def mutate_eq
      vec_insert_def vec_set_def vec_erase_def vec_erase_range_def vec_copy_def)

theorem index_mutators_unchecked_witness:
  "buffer example_heap (shared_container example_cow) = Some example_vec
   \<and> insert_at 6 0 example_cow example_heap = Inl Undefined_behaviour
   \<and> replace_at 6 0 example_cow example_heap = Inl Undefined_behaviour
   \<and> erase_at 6 example_cow example_heap = Inl Undefined_behaviour
   \<and> erase_range 6 2 example_cow example_heap = Inl Undefined_behaviour
   \<and> insert_at 4 0 example_cow example_heap \<noteq> Inl Undefined_behaviour
   \<and> replace_at 3 0 example_cow example_heap \<noteq> Inl Undefined_behaviour"
  using example_buffer index_mutators_unchecked [OF example_buffer, of 6 0 2]
    index_mutators_unchecked [OF example_buffer, of 4 0 4]
    index_mutators_unchecked [OF example_buffer, of 3 0 3]
  by (simp add: example_vec_def)


section \<open>Replacing all\<close>

lemma set_obj_same: "buffer h p = Some v \<Longrightarrow> set_obj p v h = h"
  by (auto simp: buffer_def set_obj_def store_unchanged)

lemma set_obj_set_obj [simp]: "set_obj p w (set_obj p w' h) = set_obj p w h"
  by (cases "cell h p") (auto simp: set_obj_def)

lemma replaced_end: "length xs \<le> first \<Longrightarrow> replaced pred val first xs = xs"
  by (simp add: replaced_def)

lemma replaced_hit:
  assumes "first < length xs" and "pred (xs ! first)"
  shows "replaced pred val (Suc first) (xs[first := val]) = replaced pred val first xs"
proof -
  have "drop first xs = xs ! first # drop (Suc first) xs"
    using assms(1) by (simp add: Cons_nth_drop_Suc)
  moreover have "take (Suc first) (xs[first := val]) = take first xs @ [val]"
    using assms(1) by (simp add: take_Suc_conv_app_nth)
  ultimately show ?thesis
    using assms(2) by (simp add: replaced_def)
qed

lemma replaced_miss:
  assumes "first < length xs" and "\<not> pred (xs ! first)"
  shows "replaced pred val (Suc first) xs = replaced pred val first xs"
proof -
  have "drop first xs = xs ! first # drop (Suc first) xs"
    using assms(1) by (simp add: Cons_nth_drop_Suc)
  moreover have "take (Suc first) xs = take first xs @ [xs ! first]"
    using assms(1) by (simp add: take_Suc_conv_app_nth)
  ultimately show ?thesis
    using assms(2) by (simp add: replaced_def)
qed

lemma drop_filter_step:
  "first < length xs \<Longrightarrow>
   length (filter pred (drop first xs)) =
     (if pred (xs ! first) then 1 else 0) + length (filter pred (drop (Suc first) xs))"
  by (simp add: Cons_nth_drop_Suc [symmetric])

lemma replace_all_if_loop_done:
  "\<not> first < n \<Longrightarrow> replace_all_if_loop pred val first n cp result h = Inr (cp, result, h)"
  by (subst replace_all_if_loop.simps) simp

lemma replace_all_if_loop_miss:
  assumes "first < n" and "buffer h cp = Some v" and "first < length (elems v)"
      and "\<not> pred (elems v ! first)"
  shows "replace_all_if_loop pred val first n cp result h =
         replace_all_if_loop pred val (Suc first) n cp result h"
  using assms by (subst replace_all_if_loop.simps) (simp add: vec_index_def)

lemma replace_all_if_loop_hit:
  assumes "first < n" and "buffer h cp = Some v" and "first < length (elems v)"
      and "pred (elems v ! first)" and "0 < result"
  shows "replace_all_if_loop pred val first n cp result h =
         replace_all_if_loop pred val (Suc first) n cp (Suc result)
           (set_obj cp (v\<lparr>elems := (elems v)[first := val]\<rparr>) h)"
  using assms
  by (subst replace_all_if_loop.simps) (simp add: vec_index_def update_obj_eq vec_set_def)

text \<open>After the copy: the loop writes into the buffer of \<open>copied_container\<close> only.\<close>

lemma replace_all_if_loop_copied:
  assumes "buffer h cp = Some v" and "length (elems v) = n" and "first \<le> n" and "0 < result"
  shows "replace_all_if_loop pred val first n cp result h =
           Inr (cp, result + length (filter pred (drop first (elems v))),
                set_obj cp (v\<lparr>elems := replaced pred val first (elems v)\<rparr>) h)"
  using assms
proof (induction "n - first" arbitrary: first result h v)
  case 0
  then have "first = n" by simp
  with 0 show ?case
    by (simp add: replace_all_if_loop_done replaced_end set_obj_same)
next
  case (Suc k)
  then have lt: "first < n" by simp
  let ?x = "elems v ! first"
  show ?case
  proof (cases "pred ?x")
    case True
    let ?v2 = "v\<lparr>elems := (elems v)[first := val]\<rparr>"
    let ?h2 = "set_obj cp ?v2 h"
    have b2: "buffer ?h2 cp = Some ?v2"
      using Suc.prems(1) by simp
    have step: "replace_all_if_loop pred val first n cp result h =
                replace_all_if_loop pred val (Suc first) n cp (Suc result) ?h2"
      using Suc.prems lt True by (intro replace_all_if_loop_hit) auto
    have "replace_all_if_loop pred val (Suc first) n cp (Suc result) ?h2 =
            Inr (cp, Suc result + length (filter pred (drop (Suc first) (elems ?v2))),
                 set_obj cp (?v2\<lparr>elems := replaced pred val (Suc first) (elems ?v2)\<rparr>) ?h2)"
      using Suc.hyps(2) Suc.prems lt by (intro Suc.hyps(1) b2) auto
    then show ?thesis
      using step True lt Suc.prems(2)
      by (simp add: replaced_hit drop_filter_step [of first "elems v"])
  next
    case False
    have step: "replace_all_if_loop pred val first n cp result h =
                replace_all_if_loop pred val (Suc first) n cp result h"
      using Suc.prems lt False by (intro replace_all_if_loop_miss) auto
    have "replace_all_if_loop pred val (Suc first) n cp result h =
            Inr (cp, result + length (filter pred (drop (Suc first) (elems v))),
                 set_obj cp (v\<lparr>elems := replaced pred val (Suc first) (elems v)\<rparr>) h)"
      using Suc.hyps(2) Suc.prems lt by (intro Suc.hyps(1)) auto
    then show ?thesis
      using step False lt Suc.prems(2)
      by (simp add: replaced_miss drop_filter_step [of first "elems v"])
  qed
qed


lemma first_copy_eq:
  "buffer h cp = Some v \<Longrightarrow>
   first_copy cp h =
     Inr (free_slot h, release cp (store (free_slot h) (Some (vec_copy v, 0)) h))"
  by (simp add: first_copy_def copy_current_eq)

lemma buffer_first_copy:
  assumes "buffer h cp = Some v"
  shows "buffer (release cp (store (free_slot h) (Some (w, 0)) h)) (free_slot h) = Some w"
  using live_not_free [OF assms] by simp

lemma replace_all_if_loop_first_hit:
  assumes "first < n" and "buffer h cp = Some v" and "first < length (elems v)"
      and "pred (elems v ! first)"
  shows "replace_all_if_loop pred val first n cp 0 h =
         replace_all_if_loop pred val (Suc first) n (free_slot h) (Suc 0)
           (set_obj (free_slot h) ((vec_copy v)\<lparr>elems := (elems v)[first := val]\<rparr>)
              (release cp (store (free_slot h) (Some (vec_copy v, 0)) h)))"
  using assms buffer_first_copy [OF assms(2), of "vec_copy v"]
  by (subst replace_all_if_loop.simps)
     (simp add: vec_index_def first_copy_eq update_obj_eq vec_set_def vec_copy_def)

text \<open>Before the copy: nothing happens up to the first qualifying element.\<close>

lemma replace_all_if_loop_lazy:
  assumes "buffer h cp = Some v" and "length (elems v) = n" and "first \<le> n"
  shows "replace_all_if_loop pred val first n cp 0 h =
           (if \<exists>x\<in>set (drop first (elems v)). pred x
            then Inr (free_slot h, length (filter pred (drop first (elems v))),
                      set_obj (free_slot h)
                        \<lparr>elems = replaced pred val first (elems v), cap = n\<rparr>
                        (release cp (store (free_slot h) (Some (vec_copy v, 0)) h)))
            else Inr (cp, 0, h))"
  using assms
proof (induction "n - first" arbitrary: first)
  case 0
  then show ?case
    by (simp add: replace_all_if_loop_done)
next
  case (Suc k)
  then have lt: "first < n" by simp
  have dr: "drop first (elems v) = elems v ! first # drop (Suc first) (elems v)"
    using lt Suc.prems(2) by (simp add: Cons_nth_drop_Suc)
  let ?p = "free_slot h"
  let ?h1 = "release cp (store ?p (Some (vec_copy v, 0)) h)"
  show ?case
  proof (cases "pred (elems v ! first)")
    case True
    let ?v2 = "(vec_copy v)\<lparr>elems := (elems v)[first := val]\<rparr>"
    let ?h2 = "set_obj ?p ?v2 ?h1"
    have b2: "buffer ?h2 ?p = Some ?v2"
      using buffer_first_copy [OF Suc.prems(1), of "vec_copy v"] by simp
    have "replace_all_if_loop pred val (Suc first) n ?p (Suc 0) ?h2 =
            Inr (?p, Suc 0 + length (filter pred (drop (Suc first) (elems ?v2))),
                 set_obj ?p (?v2\<lparr>elems := replaced pred val (Suc first) (elems ?v2)\<rparr>) ?h2)"
      using lt Suc.prems(2) by (intro replace_all_if_loop_copied b2) auto
    moreover have "replace_all_if_loop pred val first n cp 0 h =
            replace_all_if_loop pred val (Suc first) n ?p (Suc 0) ?h2"
      using lt Suc.prems True by (intro replace_all_if_loop_first_hit) auto
    ultimately show ?thesis
      using True lt Suc.prems(2) dr
      by (simp add: replaced_hit vec_copy_def)
  next
    case False
    have "replace_all_if_loop pred val first n cp 0 h =
          replace_all_if_loop pred val (Suc first) n cp 0 h"
      using lt Suc.prems False by (intro replace_all_if_loop_miss) auto
    moreover have "replace_all_if_loop pred val (Suc first) n cp 0 h =
           (if \<exists>x\<in>set (drop (Suc first) (elems v)). pred x
            then Inr (?p, length (filter pred (drop (Suc first) (elems v))),
                      set_obj ?p \<lparr>elems = replaced pred val (Suc first) (elems v), cap = n\<rparr> ?h1)
            else Inr (cp, 0, h))"
      using Suc.hyps(2) Suc.prems lt by (intro Suc.hyps(1)) auto
    ultimately show ?thesis
      using False lt Suc.prems(2) dr
      by (simp add: replaced_miss)
  qed
qed


lemma free_slot_update:
  "p < length h \<Longrightarrow> h ! p = Some x \<Longrightarrow> free_slot (h[p := Some y]) = free_slot h"
proof (induction h arbitrary: p rule: free_slot.induct)
  case 1
  then show ?case by simp
next
  case (2 h)
  then show ?case by (cases p) auto
next
  case (3 c h)
  then show ?case by (cases p) auto
qed

lemma free_slot_store_live:
  "cell h p = Some x \<Longrightarrow> free_slot (store p (Some y) h) = free_slot h"
  by (auto simp: cell_def store_def free_slot_update split: if_splits)

lemma free_slot_acquire [simp]: "free_slot (acquire p h) = free_slot h"
  by (auto simp: acquire_def free_slot_store_live split: option.splits)

lemma free_slot_set_obj [simp]: "free_slot (set_obj p v h) = free_slot h"
  by (auto simp: set_obj_def free_slot_store_live split: option.splits)

lemma cow_same [simp]: "c\<lparr>shared_container := shared_container c\<rparr> = (c::cow)"
  by simp

lemma replace_all_if_none:
  assumes "buffer h (shared_container c) = Some v" and "\<forall>x\<in>set (elems v). \<not> pred x"
  shows "replace_all_if pred val c h = Inr (0, c, h)"
  using assms replace_all_if_loop_lazy [of "acquire (shared_container c) h" "shared_container c" v
      "length (elems v)" 0 pred val]
  by (simp add: replace_all_if_def publish_def)

lemma replace_all_if_some:
  assumes "buffer h (shared_container c) = Some v" and "\<exists>x\<in>set (elems v). pred x"
  shows "replace_all_if pred val c h =
           Inr (length (filter pred (elems v)), c\<lparr>shared_container := free_slot h\<rparr>,
                release (shared_container c)
                  (set_obj (free_slot h)
                     \<lparr>elems = map (\<lambda>x. if pred x then val else x) (elems v),
                      cap = length (elems v)\<rparr>
                     (release (shared_container c)
                        (store (free_slot h) (Some (vec_copy v, 0))
                           (acquire (shared_container c) h)))))"
  using assms replace_all_if_loop_lazy [of "acquire (shared_container c) h" "shared_container c" v
      "length (elems v)" 0 pred val]
  by (simp add: replace_all_if_def publish_def replaced_def)

lemma replace_all_loop_eq:
  "replace_all_loop old_value new_value first n cp result h =
   replace_all_if_loop (\<lambda>x. x = old_value) new_value first n cp result h"
proof (induction "n - first" arbitrary: first cp result h)
  case 0
  then show ?case
    by (subst replace_all_loop.simps, subst replace_all_if_loop.simps) simp
next
  case (Suc k)
  then have "n - Suc first = k" by simp
  then have ih: "\<And>cp result h. replace_all_loop old_value new_value (Suc first) n cp result h =
      replace_all_if_loop (\<lambda>x. x = old_value) new_value (Suc first) n cp result h"
    using Suc.hyps(1) by simp
  show ?case
    by (subst replace_all_loop.simps, subst replace_all_if_loop.simps)
       (simp add: ih cong: option.case_cong sum.case_cong if_cong split: prod.splits)
qed

lemma replace_all_eq: "replace_all old_value new_value c h = replace_all_if (\<lambda>x. x = old_value) new_value c h"
  by (simp add: replace_all_def replace_all_if_def replace_all_loop_eq cong: option.case_cong)

text \<open>
  Claim C5. Bulk counts: \<^verbatim>\<open>replace_all(old, new)\<close> returns exactly the number of
  elements equal to \<open>old\<close> before the call; afterwards the container holds the old
  sequence with every \<open>old\<close> turned into \<open>new\<close>, so no element equals \<open>old\<close>
  unless \<open>new = old\<close>.
\<close>

theorem replace_all_counts:
  assumes "buffer h (shared_container c) = Some v"
  shows "\<exists>c' h' v'. replace_all old_value new_value c h =
                       Inr (length (filter (\<lambda>x. x = old_value) (elems v)), c', h')
           \<and> buffer h' (shared_container c') = Some v'
           \<and> elems v' = map (\<lambda>x. if x = old_value then new_value else x) (elems v)
           \<and> (new_value \<noteq> old_value \<longrightarrow> old_value \<notin> set (elems v'))"
proof (cases "old_value \<in> set (elems v)")
  case False
  then have none: "\<forall>x\<in>set (elems v). \<not> x = old_value" by auto
  have "filter (\<lambda>x. x = old_value) (elems v) = []"
    using False by (auto simp: filter_empty_conv)
  moreover have "map (\<lambda>x. if x = old_value then new_value else x) (elems v) = elems v"
    using False by (intro map_idI) auto
  ultimately show ?thesis
    using assms False replace_all_if_none [OF assms none, of new_value]
    by (auto simp: replace_all_eq)
next
  case True
  then have some: "\<exists>x\<in>set (elems v). x = old_value" by auto
  have ne: "free_slot h \<noteq> shared_container c"
    using live_not_free [OF assms] by simp
  show ?thesis
    using ne by (auto simp: replace_all_eq replace_all_if_some [OF assms some])
qed

theorem replace_all_counts_witness:
  "buffer example_heap (shared_container example_cow) = Some example_vec
   \<and> (\<exists>c' h' v'. replace_all 3 4 example_cow example_heap = Inr (2, c', h')
         \<and> buffer h' (shared_container c') = Some v'
         \<and> elems v' = [1, 4, 4, 5]
         \<and> 3 \<notin> set (elems v'))"
  using example_buffer replace_all_counts [OF example_buffer, of 3 4]
  by (auto simp: example_vec_def)


section \<open>Bulk mutators that find nothing to do\<close>

lemma erase_all_if_eq:
  assumes "buffer h (shared_container c) = Some v"
  shows "erase_all_if pred c h =
           Inr (length (filter pred (elems v)), c\<lparr>shared_container := free_slot h\<rparr>,
                release (shared_container c)
                  (store (free_slot h)
                     (Some (\<lparr>elems = filter (\<lambda>x. \<not> pred x) (elems v),
                             cap = length (elems v)\<rparr>, 0)) h))"
proof -
  let ?kept = "filter (\<lambda>x. \<not> pred x) (elems v)"
  have le: "length ?kept \<le> length (elems v)" by (rule length_filter_le)
  have cnt: "length (elems v) - length ?kept = length (filter pred (elems v))"
    using sum_length_filter_compl [of pred "elems v"] by simp
  show ?thesis
    using le cnt
    by (simp add: erase_all_if_def copy_current_eq [OF assms] std_remove_if_def Let_def
        update_obj_eq vec_erase_range_def vec_copy_def publish_def)
qed

lemma erase_all_eq: "erase_all val c h = erase_all_if (\<lambda>x. x = val) c h"
  by (simp only: erase_all_def erase_all_if_def std_remove_def)

lemma push_back_if_absent_loop_none:
  assumes "buffer h cp = Some v" and "set xs \<subseteq> set (elems v)"
  shows "push_back_if_absent_loop xs cp result h = Inr (cp, result, h)"
  using assms by (induction xs) (auto simp: std_find_end)

lemma push_back_range_if_absent_none:
  assumes "buffer h (shared_container c) = Some v" and "set xs \<subseteq> set (elems v)"
  shows "push_back_range_if_absent xs c h = Inr (0, c, h)"
proof -
  have "buffer (acquire (shared_container c) h) (shared_container c) = Some v"
    using assms(1) by simp
  then have "push_back_if_absent_loop xs (shared_container c) 0 (acquire (shared_container c) h)
             = Inr (shared_container c, 0, acquire (shared_container c) h)"
    using assms(2) by (rule push_back_if_absent_loop_none)
  then show ?thesis
    by (simp add: push_back_range_if_absent_def publish_def)
qed

text \<open>
  Claim C4, as stated, fails for \<^verbatim>\<open>erase_all\<close> and \<^verbatim>\<open>erase_all_if\<close>: they copy
  the buffer before they search. On \<open>[1, 3, 3, 5]\<close>, erasing all 9 (or everything
  above 9) returns 0, and the container refers to a new buffer at another address.
\<close>

theorem erase_all_copies_anyway:
  "erase_all 9 example_cow example_heap =
     Inr (0, \<lparr>shared_container = 1\<rparr>, [None, Some (\<lparr>elems = [1, 3, 3, 5], cap = 4\<rparr>, 0)])
   \<and> shared_container \<lparr>shared_container = 1\<rparr> \<noteq> shared_container example_cow
   \<and> erase_all_if ((<) 9) example_cow example_heap =
     Inr (0, \<lparr>shared_container = 1\<rparr>, [None, Some (\<lparr>elems = [1, 3, 3, 5], cap = 4\<rparr>, 0)])"
  by code_simp

text \<open>
  Claim C4, amended: the lazy bulk mutators \<^verbatim>\<open>replace_all\<close>,
  \<^verbatim>\<open>replace_all_if\<close> and the ranged \<^verbatim>\<open>push_back_if_absent\<close>, when the call affects
  no element, return 0 and leave the container referring to the same buffer, with
  nothing allocated. \<^verbatim>\<open>erase_all\<close> and \<^verbatim>\<open>erase_all_if\<close> copy first: when no
  element qualifies they return 0 and the container refers to a fresh buffer that holds
  an equal element sequence.
\<close>

theorem bulk_no_op:
  assumes "buffer h (shared_container c) = Some v"
  shows "(old_value \<notin> set (elems v) \<longrightarrow> replace_all old_value new_value c h = Inr (0, c, h))
       \<and> ((\<forall>x\<in>set (elems v). \<not> pred x) \<longrightarrow> replace_all_if pred new_value c h = Inr (0, c, h))
       \<and> (set xs \<subseteq> set (elems v) \<longrightarrow> push_back_range_if_absent xs c h = Inr (0, c, h))
       \<and> (val \<notin> set (elems v) \<longrightarrow>
            (\<exists>c' h'. erase_all val c h = Inr (0, c', h')
               \<and> shared_container c' \<noteq> shared_container c
               \<and> contents c' h' = Some (elems v)))
       \<and> ((\<forall>x\<in>set (elems v). \<not> pred x) \<longrightarrow>
            (\<exists>c' h'. erase_all_if pred c h = Inr (0, c', h')
               \<and> shared_container c' \<noteq> shared_container c
               \<and> contents c' h' = Some (elems v)))"
proof -
  have ne: "free_slot h \<noteq> shared_container c"
    using live_not_free [OF assms] by simp
  have 1: "old_value \<notin> set (elems v) \<longrightarrow> replace_all old_value new_value c h = Inr (0, c, h)"
    using replace_all_if_none [OF assms, of "\<lambda>x. x = old_value" new_value]
    by (auto simp: replace_all_eq)
  have 2: "(\<forall>x\<in>set (elems v). \<not> pred x) \<longrightarrow> replace_all_if pred new_value c h = Inr (0, c, h)"
    using replace_all_if_none [OF assms] by blast
  have 3: "set xs \<subseteq> set (elems v) \<longrightarrow> push_back_range_if_absent xs c h = Inr (0, c, h)"
    using push_back_range_if_absent_none [OF assms] by blast
  have e: "\<And>P. (\<forall>x\<in>set (elems v). \<not> P x) \<Longrightarrow>
            (\<exists>c' h'. erase_all_if P c h = Inr (0, c', h')
               \<and> shared_container c' \<noteq> shared_container c
               \<and> contents c' h' = Some (elems v))"
  proof -
    fix P assume none: "\<forall>x\<in>set (elems v). \<not> P x"
    then have "filter P (elems v) = []" and "filter (\<lambda>x. \<not> P x) (elems v) = elems v"
      by (auto simp: filter_empty_conv filter_id_conv)
    then show "\<exists>c' h'. erase_all_if P c h = Inr (0, c', h')
               \<and> shared_container c' \<noteq> shared_container c
               \<and> contents c' h' = Some (elems v)"
      using ne by (simp add: erase_all_if_eq [OF assms] contents_def)
  qed
  have 4: "val \<notin> set (elems v) \<longrightarrow>
            (\<exists>c' h'. erase_all val c h = Inr (0, c', h')
               \<and> shared_container c' \<noteq> shared_container c
               \<and> contents c' h' = Some (elems v))"
    using e [of "\<lambda>x. x = val"] by (auto simp: erase_all_eq)
  have 5: "(\<forall>x\<in>set (elems v). \<not> pred x) \<longrightarrow>
            (\<exists>c' h'. erase_all_if pred c h = Inr (0, c', h')
               \<and> shared_container c' \<noteq> shared_container c
               \<and> contents c' h' = Some (elems v))"
    using e [of pred] by blast
  from 1 2 3 4 5 show ?thesis by blast
qed

theorem bulk_no_op_witness:
  "buffer example_heap (shared_container example_cow) = Some example_vec
   \<and> 9 \<notin> set (elems example_vec)
   \<and> set [3, 1] \<subseteq> set (elems example_vec)
   \<and> replace_all 9 4 example_cow example_heap = Inr (0, example_cow, example_heap)
   \<and> replace_all_if (\<lambda>x. 9 < x) 4 example_cow example_heap = Inr (0, example_cow, example_heap)
   \<and> push_back_range_if_absent [3, 1] example_cow example_heap = Inr (0, example_cow, example_heap)
   \<and> (\<exists>c' h'. erase_all 9 example_cow example_heap = Inr (0, c', h')
         \<and> shared_container c' \<noteq> shared_container example_cow
         \<and> contents c' h' = Some [1, 3, 3, 5])
   \<and> (\<exists>c' h'. erase_all_if (\<lambda>x. 9 < x) example_cow example_heap = Inr (0, c', h')
         \<and> shared_container c' \<noteq> shared_container example_cow
         \<and> contents c' h' = Some [1, 3, 3, 5])"
proof -
  have n: "9 \<notin> set (elems example_vec)" and s: "set [3, 1] \<subseteq> set (elems example_vec)"
    and p: "\<forall>x\<in>set (elems example_vec). \<not> 9 < x"
    by (simp_all add: example_vec_def)
  show ?thesis
    using example_buffer n s p
      bulk_no_op [where old_value = 9 and new_value = 4 and pred = "\<lambda>x. 9 < x"
        and xs = "[3, 1]" and val = 9, OF example_buffer]
    by (simp add: example_vec_def)
qed



section \<open>What a mutator does to the heap\<close>

lemma republished_refl [simp]: "republished c h c h"
  by (simp add: republished_def)

lemma via_lock_dead:
  "buffer h (shared_container c) = None \<Longrightarrow>
   via_lock (snapshot_read f) c h = (Inl Undefined_behaviour, h)"
  by (simp add: via_lock_def lock_def snapshot_release_def snapshot_read_def)

lemma republishedI:
  "republished c h (c\<lparr>shared_container := free_slot h\<rparr>)
     (release (shared_container c) (store (free_slot h) x h))"
  by (auto simp: republished_def)

lemma mutate_republished:
  assumes "mutate f c h = Inr (c', h')"
  shows "republished c h c' h'"
proof (cases "buffer h (shared_container c)")
  case None
  with assms show ?thesis by (simp add: mutate_def copy_current_def)
next
  case (Some v)
  show ?thesis
    using assms republishedI [of c h]
    by (auto simp: mutate_eq [OF Some] split: sum.splits)
qed

lemma lazy_republished:
  assumes "(case buffer h (shared_container c) of
              None \<Rightarrow> Inl Undefined_behaviour
            | Some v \<Rightarrow>
                if cond v then Inr (False, c, h)
                else (case mutate (f v) c h of
                        Inl e \<Rightarrow> Inl e
                      | Inr (c', h') \<Rightarrow> Inr (True, c', h'))) = Inr (b, c', h')"
  shows "republished c h c' h'"
  using assms
  by (auto dest: mutate_republished split: option.splits if_splits sum.splits)

lemma replace_republished: "replace old_value new_value c h = Inr (b, c', h') \<Longrightarrow> republished c h c' h'"
  unfolding replace_def Let_def by (rule lazy_republished)

lemma replace_if_republished: "replace_if pred val c h = Inr (b, c', h') \<Longrightarrow> republished c h c' h'"
  unfolding replace_if_def Let_def by (rule lazy_republished)

lemma erase_republished: "erase val c h = Inr (b, c', h') \<Longrightarrow> republished c h c' h'"
  unfolding erase_def Let_def by (rule lazy_republished)

lemma erase_if_republished: "erase_if pred c h = Inr (b, c', h') \<Longrightarrow> republished c h c' h'"
  unfolding erase_if_def Let_def by (rule lazy_republished)

lemma push_back_if_absent_republished:
  assumes "push_back_if_absent val c h = Inr (b, c', h')"
  shows "republished c h c' h'"
  using assms
  by (auto simp: push_back_if_absent_def Let_def
      dest: mutate_republished split: option.splits if_splits sum.splits)

lemma clear_republished:
  assumes "clear c h = Inr (c', h')"
  shows "republished c h c' h'"
proof (cases "buffer h (shared_container c)")
  case None
  with assms show ?thesis
    by (simp add: clear_def get_allocator_def snapshot_get_allocator_def via_lock_dead)
next
  case (Some v)
  show ?thesis
    using assms republishedI [of c h] by (auto simp: clear_eq [OF Some])
qed

lemma swap_vec_republished:
  assumes "swap_vec w c h = Inr (w', c', h')"
  shows "republished c h c' h'"
proof (cases "buffer h (shared_container c)")
  case None
  with assms show ?thesis by (simp add: swap_vec_def copy_current_def)
next
  case (Some v)
  show ?thesis
    using assms republishedI [of c h]
    by (auto simp: swap_vec_def copy_current_eq [OF Some] publish_def)
qed

lemma erase_all_if_republished:
  assumes "erase_all_if pred c h = Inr (n, c', h')"
  shows "republished c h c' h'"
proof (cases "buffer h (shared_container c)")
  case None
  with assms show ?thesis by (simp add: erase_all_if_def copy_current_def)
next
  case (Some v)
  show ?thesis
    using assms republishedI [of c h] by (auto simp: erase_all_if_eq [OF Some])
qed

lemma replace_all_if_republished:
  assumes "replace_all_if pred val c h = Inr (n, c', h')"
  shows "republished c h c' h'"
proof (cases "buffer h (shared_container c)")
  case None
  with assms show ?thesis by (simp add: replace_all_if_def)
next
  case (Some v)
  have ne: "free_slot h \<noteq> shared_container c"
    using live_not_free [OF Some] by simp
  show ?thesis
  proof (cases "\<exists>x\<in>set (elems v). pred x")
    case True
    show ?thesis
      using assms ne Some
      by (auto simp: replace_all_if_some [OF Some True] republished_def buffer_def
          split: option.splits nat.splits)
  next
    case False
    then show ?thesis
      using assms replace_all_if_none [OF Some, of pred val]
      by (auto simp: republished_def)
  qed
qed


lemma erase_all_republished: "erase_all val c h = Inr (n, c', h') \<Longrightarrow> republished c h c' h'"
  unfolding erase_all_eq by (rule erase_all_if_republished)

lemma replace_all_republished:
  "replace_all old_value new_value c h = Inr (n, c', h') \<Longrightarrow> republished c h c' h'"
  unfolding replace_all_eq by (rule replace_all_if_republished)

lemma push_back_if_absent_loop_copied:
  assumes "buffer h cp = Some v" and "0 < result"
  shows "\<exists>w r. push_back_if_absent_loop xs cp result h = Inr (cp, r, set_obj cp w h)"
  using assms
proof (induction xs arbitrary: h v result)
  case Nil
  have "set_obj cp v h = h"
    using Nil(1) by (rule set_obj_same)
  then have "push_back_if_absent_loop [] cp result h = Inr (cp, result, set_obj cp v h)"
    by simp
  then show ?case by blast
next
  case (Cons x xs)
  show ?case
  proof (cases "std_find x (elems v) = length (elems v)")
    case True
    let ?v' = "\<lparr>elems = elems v @ [x], cap = grown 1 v\<rparr>"
    let ?h2 = "set_obj cp ?v' h"
    have b2: "buffer ?h2 cp = Some ?v'"
      using Cons.prems(1) by simp
    obtain w r where "push_back_if_absent_loop xs cp (Suc result) ?h2 = Inr (cp, r, set_obj cp w ?h2)"
      using Cons.IH [OF b2, of "Suc result"] by auto
    then show ?thesis
      using Cons.prems True by (auto simp: update_obj_eq vec_push_back_def)
  next
    case False
    then show ?thesis
      using Cons.IH [OF Cons.prems] Cons.prems(1) by auto
  qed
qed

lemma push_back_if_absent_loop_lazy:
  assumes "buffer h cp = Some v"
  shows "push_back_if_absent_loop xs cp 0 h = Inr (cp, 0, h) \<or>
         (\<exists>w r. push_back_if_absent_loop xs cp 0 h =
            Inr (free_slot h, r,
                 set_obj (free_slot h) w
                   (release cp (store (free_slot h) (Some (vec_copy v, 0)) h))))"
proof (induction xs)
  case Nil
  show ?case by simp
next
  case (Cons x xs)
  let ?p = "free_slot h"
  let ?h1 = "release cp (store ?p (Some (vec_copy v, 0)) h)"
  show ?case
  proof (cases "std_find x (elems v) = length (elems v)")
    case True
    let ?v' = "\<lparr>elems = elems (vec_copy v) @ [x], cap = grown 1 (vec_copy v)\<rparr>"
    let ?h2 = "set_obj ?p ?v' ?h1"
    have b1: "buffer ?h1 ?p = Some (vec_copy v)"
      by (rule buffer_first_copy [OF assms])
    have b2: "buffer ?h2 ?p = Some ?v'"
      using b1 by simp
    obtain w r where "push_back_if_absent_loop xs ?p (Suc 0) ?h2 = Inr (?p, r, set_obj ?p w ?h2)"
      using push_back_if_absent_loop_copied [OF b2, of "Suc 0" xs] by auto
    then show ?thesis
      using assms True b1
      by (auto simp: first_copy_eq update_obj_eq vec_push_back_def)
  next
    case False
    then show ?thesis
      using Cons.IH assms by auto
  qed
qed

lemma push_back_range_if_absent_republished:
  assumes "push_back_range_if_absent xs c h = Inr (n, c', h')"
  shows "republished c h c' h'"
proof (cases "buffer h (shared_container c)")
  case None
  then have dead: "acquire (shared_container c) h = h" "release (shared_container c) h = h"
    by (auto simp: acquire_def release_def buffer_def)
  show ?thesis
  proof (cases xs)
    case Nil
    with assms dead show ?thesis
      by (auto simp: push_back_range_if_absent_def publish_def)
  next
    case (Cons y ys)
    with assms None dead show ?thesis
      by (simp add: push_back_range_if_absent_def)
  qed
next
  case (Some v)
  let ?sc = "shared_container c"
  let ?h0 = "acquire ?sc h"
  have b0: "buffer ?h0 ?sc = Some v"
    using Some by simp
  have ne: "free_slot h \<noteq> ?sc"
    using live_not_free [OF Some] by simp
  show ?thesis
    using push_back_if_absent_loop_lazy [OF b0, of xs] assms ne Some
    by (auto simp: push_back_range_if_absent_def publish_def republished_def buffer_def
        split: option.splits nat.splits)
qed

lemma pinned_republished:
  assumes "pinned s v c other h" and "republished c h c' h'"
  shows "pinned s v c' other h'"
proof -
  obtain k where k: "cell h s = Some (v, k)"
    and le: "(if shared_container c = s then 1 else 0) +
             (if shared_container other = s then 1 else 0) \<le> k"
    using assms(1) by (auto simp: pinned_def)
  have fresh: "s \<noteq> free_slot h"
    using k by auto
  from assms(2) show ?thesis
    unfolding republished_def
  proof
    assume "c' = c \<and> h' = h"
    then show ?thesis using assms(1) by simp
  next
    assume r: "shared_container c' = free_slot h \<and>
       (\<forall>q. q \<noteq> free_slot h \<longrightarrow> cell h' q = cell (release (shared_container c) h) q)"
    then have "cell h' s = cell (release (shared_container c) h) s"
      using fresh by blast
    then show ?thesis
      using k le r fresh by (auto simp: pinned_def split: nat.splits if_splits)
  qed
qed

lemma pinned_swap_cow:
  assumes "pinned s v c other h" and "swap_cow c other h = Inr (c', other', h')"
  shows "pinned s v c' other' h' \<and> shared_container c' \<noteq> s \<and> shared_container other' \<noteq> s"
proof -
  obtain k where k: "cell h s = Some (v, k)"
    and le: "(if shared_container c = s then 1 else 0) +
             (if shared_container other = s then 1 else 0) \<le> k"
    using assms(1) by (auto simp: pinned_def)
  obtain x where x: "buffer h (shared_container c) = Some x"
    using assms(2) by (cases "buffer h (shared_container c)") (auto simp: swap_cow_def copy_current_def)
  let ?p = "free_slot h"
  let ?h1 = "store ?p (Some (vec_copy x, 0)) h"
  obtain y where y: "buffer ?h1 (shared_container other) = Some y"
    using assms(2) x
    by (cases "buffer ?h1 (shared_container other)")
       (auto simp: swap_cow_def copy_current_def make_shared_eq)
  let ?q = "free_slot ?h1"
  have sp: "s \<noteq> ?p"
    using k by auto
  have "cell ?h1 s = Some (v, k)"
    using k sp by simp
  moreover have "cell ?h1 ?q = None"
    by (rule cell_free_slot)
  ultimately have sq: "s \<noteq> ?q"
    by (metis option.distinct(1))
  have pc: "?p \<noteq> shared_container c"
    using live_not_free [OF x] by simp
  have qo: "?q \<noteq> shared_container other"
    using live_not_free [OF y] by simp
  have "buffer ?h1 ?p = Some (vec_copy x)"
    by simp
  then have "?p \<noteq> ?q"
    by (rule live_not_free)
  then have qp: "?q \<noteq> ?p"
    by (rule not_sym)
  show ?thesis
    using assms(2) k le sp sq pc qo qp
    by (auto simp: swap_cow_def copy_current_eq [OF x] copy_current_eq [OF y] publish_def
        pinned_def split: nat.splits if_splits)
qed


lemma operator_assign_vec_republished:
  "operator_assign_vec w c h = (c', h') \<Longrightarrow> republished c h c' h'"
  using republishedI [of c h] by (auto simp: operator_assign_vec_def make_shared_eq publish_def)

lemma operator_assign_vec_move_republished:
  "operator_assign_vec_move w c h = (w', c', h') \<Longrightarrow> republished c h c' h'"
  using republishedI [of c h]
  by (auto simp: operator_assign_vec_move_def make_shared_eq publish_def)

lemma operator_assign_list_republished:
  "operator_assign_list xs c h = (c', h') \<Longrightarrow> republished c h c' h'"
  using republishedI [of c h] by (auto simp: operator_assign_list_def make_shared_eq publish_def)

lemma operator_assign_cow_republished:
  assumes "operator_assign_cow other c h = Inr (c', h')"
  shows "republished c h c' h'"
proof (cases "buffer h (shared_container other)")
  case None
  with assms show ?thesis
    by (simp add: operator_assign_cow_def lock_def)
next
  case (Some w)
  have ne: "shared_container other \<noteq> free_slot h"
    by (rule live_not_free [OF Some])
  show ?thesis
    using assms Some ne
    by (auto simp: operator_assign_cow_def lock_def make_shared_eq publish_def
        snapshot_release_def republished_def buffer_def split: option.splits nat.splits)
qed

lemma pinned_operator_move_assign_cow:
  assumes "pinned s v c other h" and "shared_container other \<noteq> s"
      and "operator_move_assign_cow other c h = Inr (c', h')"
  shows "pinned s v c' other h'"
proof (cases "buffer h (shared_container other)")
  case None
  with assms(3) show ?thesis
    by (simp add: operator_move_assign_cow_def lock_def)
next
  case (Some w)
  obtain k where k: "cell h s = Some (v, k)"
    and le: "(if shared_container c = s then 1 else 0) +
             (if shared_container other = s then 1 else 0) \<le> k"
    using assms(1) by (auto simp: pinned_def)
  have sp: "s \<noteq> free_slot h"
    using k by auto
  show ?thesis
    using assms(2,3) Some k le sp
    by (auto simp: operator_move_assign_cow_def lock_def make_shared_eq publish_def
        snapshot_release_def pinned_def split: nat.splits if_splits)
qed

lemma pinned_commute: "pinned s v c other h \<longleftrightarrow> pinned s v other c h"
  by (auto simp: pinned_def)

lemma pinned_void:
  assumes "pinned s v c other h" and "returning_void other (mutate f c h) = Inr (c', other', h')"
  shows "pinned s v c' other' h'"
proof -
  from assms(2) have "mutate f c h = Inr (c', h')" and "other' = other"
    by (auto simp: returning_void_def split: sum.splits)
  then show ?thesis
    using assms(1) mutate_republished pinned_republished by blast
qed

lemma pinned_clear:
  assumes "pinned s v c other h" and "returning_void other (clear c h) = Inr (c', other', h')"
  shows "pinned s v c' other' h'"
proof -
  from assms(2) have "clear c h = Inr (c', h')" and "other' = other"
    by (auto simp: returning_void_def split: sum.splits)
  then show ?thesis
    using assms(1) clear_republished pinned_republished by blast
qed

lemma pinned_returning:
  assumes "pinned s v c other h" and "returning other r = Inr (c', other', h')"
      and "\<And>x. r = Inr (x, c', h') \<Longrightarrow> republished c h c' h'"
  shows "pinned s v c' other' h'"
proof -
  from assms(2) obtain x where "r = Inr (x, c', h')" and "other' = other"
    by (auto simp: returning_def split: sum.splits)
  then show ?thesis
    using assms(1,3) pinned_republished by blast
qed

lemmas mutate_based =
  assign_def assign_range_def reserve_def shrink_to_fit_def insert_at_def insert_count_at_def
  insert_range_at_def emplace_at_def replace_at_def erase_at_def erase_range_def push_back_def
  emplace_back_def push_back_range_def pop_back_def resize_def sort_cow_def sort_comp_def
  stable_sort_def stable_sort_comp_def

lemma pinned_Inr:
  assumes "pinned s v c other h"
      and "returning_void other (Inr (c', h')) = Inr (c1, other1, h1)"
      and "republished c h c' h'"
  shows "pinned s v c1 other1 h1"
  using assms pinned_republished by (auto simp: returning_void_def)

lemma exec_other:
  assumes "m \<noteq> Swap_cow" and "m \<noteq> Swap_cow_from_other"
      and "exec lib m c other h = Inr (c', other', h')"
  shows "other' = other"
  using assms
  by (cases m) (auto simp: returning_void_def returning_def split: sum.splits prod.splits)

lemma exec_pinned:
  assumes "pinned s v c other h" and "shared_container other \<noteq> s"
      and "exec lib m c other h = Inr (c', other', h')"
  shows "pinned s v c' other' h'"
proof (cases m)
  case Clear
  then show ?thesis using assms by (auto intro: pinned_clear)
next
  case (Replace x y)
  then show ?thesis
    using assms by (auto intro: pinned_returning replace_republished)
next
  case (Replace_all x y)
  then show ?thesis
    using assms by (auto intro: pinned_returning replace_all_republished)
next
  case (Replace_if p y)
  then show ?thesis
    using assms by (auto intro: pinned_returning replace_if_republished)
next
  case (Replace_all_if p y)
  then show ?thesis
    using assms by (auto intro: pinned_returning replace_all_if_republished)
next
  case (Erase x)
  then show ?thesis
    using assms by (auto intro: pinned_returning erase_republished)
next
  case (Erase_all x)
  then show ?thesis
    using assms by (auto intro: pinned_returning erase_all_republished)
next
  case (Erase_if p)
  then show ?thesis
    using assms by (auto intro: pinned_returning erase_if_republished)
next
  case (Erase_all_if p)
  then show ?thesis
    using assms by (auto intro: pinned_returning erase_all_if_republished)
next
  case (Push_back_if_absent x)
  then show ?thesis
    using assms by (auto intro: pinned_returning push_back_if_absent_republished)
next
  case (Push_back_range_if_absent xs)
  then show ?thesis
    using assms by (auto intro: pinned_returning push_back_range_if_absent_republished)
next
  case (Swap_vec w)
  then show ?thesis
    using assms by (auto intro: pinned_returning swap_vec_republished)
next
  case Swap_cow
  then have "swap_cow c other h = Inr (c', other', h')"
    using assms(3) by simp
  then show ?thesis
    using assms(1) pinned_swap_cow by blast
next
  case Swap_cow_from_other
  then obtain "swap_cow other c h = Inr (other', c', h')"
    using assms(3) by (auto split: sum.splits)
  then have "pinned s v other' c' h'"
    using assms(1) pinned_commute pinned_swap_cow by blast
  then show ?thesis
    by (simp add: pinned_commute)
next
  case (Operator_assign_vec w)
  obtain c1 h1 where r: "operator_assign_vec w c h = (c1, h1)"
    by (cases "operator_assign_vec w c h")
  show ?thesis
    using assms(1,3) Operator_assign_vec r operator_assign_vec_republished [OF r]
    by (auto intro: pinned_Inr)
next
  case (Operator_assign_vec_move w)
  obtain w1 c1 h1 where r: "operator_assign_vec_move w c h = (w1, c1, h1)"
    by (cases "operator_assign_vec_move w c h")
  show ?thesis
    using assms(1,3) Operator_assign_vec_move r operator_assign_vec_move_republished [OF r]
    by (auto intro: pinned_returning)
next
  case (Operator_assign_list xs)
  obtain c1 h1 where r: "operator_assign_list xs c h = (c1, h1)"
    by (cases "operator_assign_list xs c h")
  show ?thesis
    using assms(1,3) Operator_assign_list r operator_assign_list_republished [OF r]
    by (auto intro: pinned_Inr)
next
  case Operator_assign_cow
  then have "operator_assign_cow other c h = Inr (c', h')" and "other' = other"
    using assms(3) by (auto simp: returning_void_def split: sum.splits)
  then show ?thesis
    using assms(1) operator_assign_cow_republished pinned_republished by blast
next
  case Operator_move_assign_cow
  then have "operator_move_assign_cow other c h = Inr (c', h')" and "other' = other"
    using assms(3) by (auto simp: returning_void_def split: sum.splits)
  then show ?thesis
    using assms(1,2) pinned_operator_move_assign_cow by blast
qed (use assms in \<open>auto simp: mutate_based intro: pinned_void\<close>)

lemma exec_other_fresh:
  assumes "pinned s v c other h" and "shared_container other \<noteq> s"
      and "exec lib m c other h = Inr (c', other', h')"
  shows "shared_container other' \<noteq> s"
proof (cases "m = Swap_cow \<or> m = Swap_cow_from_other")
  case False
  then show ?thesis
    using assms(2,3) exec_other by blast
next
  case True
  then show ?thesis
  proof
    assume "m = Swap_cow"
    then have "swap_cow c other h = Inr (c', other', h')"
      using assms(3) by simp
    then show ?thesis
      using assms(1) pinned_swap_cow by blast
  next
    assume "m = Swap_cow_from_other"
    then obtain "swap_cow other c h = Inr (other', c', h')"
      using assms(3) by (auto split: sum.splits)
    then show ?thesis
      using assms(1) pinned_commute pinned_swap_cow by blast
  qed
qed

lemma run_pinned:
  assumes "pinned s v c other h" and "shared_container other \<noteq> s"
      and "run lib ms c other h = Inr (c', other', h')"
  shows "pinned s v c' other' h'"
  using assms
proof (induction ms arbitrary: c other h)
  case Nil
  then show ?case by simp
next
  case (Cons m ms)
  show ?case
  proof (cases "exec lib m c other h")
    case (Inl e)
    then have "run lib ms c other h = Inr (c', other', h')"
      using Cons.prems(3) by (auto split: if_splits)
    then show ?thesis
      using Cons.prems(1,2) Cons.IH by blast
  next
    case (Inr r)
    then obtain c1 other1 h1
      where step: "exec lib m c other h = Inr (c1, other1, h1)"
      by (cases r) auto
    then have rest: "run lib ms c1 other1 h1 = Inr (c', other', h')"
      using Cons.prems(3) by simp
    have "pinned s v c1 other1 h1"
      using Cons.prems(1,2) step by (rule exec_pinned)
    moreover have "shared_container other1 \<noteq> s"
      using Cons.prems(1,2) step by (rule exec_other_fresh)
    ultimately show ?thesis
      using rest by (rule Cons.IH)
  qed
qed

text \<open>
  Snapshot isolation under the mutators, the part of claim C1 that the code keeps: take
  a snapshot \<open>S\<close> with \<^verbatim>\<open>lock()\<close> from a container whose buffer is \<open>v\<close>, then
  call any sequence of mutators and assignment operators on the container, with a
  second container (one with a buffer of its own) at hand for the two-container
  \<^verbatim>\<open>swap\<close> and the assignments from a container. Calls may throw; none is made
  outside the precondition of its vector operation. Whatever the sequence, the library's
  \<^verbatim>\<open>max_size()\<close> and its \<^verbatim>\<open>std::sort\<close>, \<open>S\<close> still refers to a live buffer equal
  to \<open>v\<close>: its size, its elements and every \<^verbatim>\<open>at(n)\<close> are those of \<open>v\<close>.
\<close>

theorem snapshot_isolation:
  assumes "buffer h (shared_container c) = Some v"
      and "shared_container other \<noteq> shared_container c"
      and "lock c h = (s, h0)"
      and "run lib ms c other h0 = Inr (c', other', h')"
  shows "snapshot_size s h' = Inr (length (elems v))
       \<and> snapshot_elems s h' = Inr (elems v)
       \<and> snapshot_at n s h' = vec_at n v
       \<and> buffer h' (snapshot_container s) = Some v"
proof -
  have s: "snapshot_container s = shared_container c" and h0: "h0 = acquire (shared_container c) h"
    using assms(3) by (auto simp: lock_def)
  obtain k where "cell h (shared_container c) = Some (v, k)"
    using assms(1) by (auto simp: buffer_def)
  then have "pinned (shared_container c) v c other h0"
    using assms(2) by (simp add: pinned_def h0)
  then have "pinned (shared_container c) v c' other' h'"
    using assms(2,4) by (rule run_pinned)
  then have "buffer h' (snapshot_container s) = Some v"
    by (auto simp: pinned_def buffer_def s)
  then show ?thesis
    by (simp add: snapshot_size_def snapshot_elems_def snapshot_at_def snapshot_read_def)
qed

theorem snapshot_isolation_witness:
  "buffer example_heap_AB (shared_container example_A) = Some \<lparr>elems = [1, 2], cap = 2\<rparr>
   \<and> shared_container example_B \<noteq> shared_container example_A
   \<and> lock example_A example_heap_AB = (example_snapshot, example_heap_locked)
   \<and> run example_library example_run example_A example_B example_heap_locked =
       Inr (\<lparr>shared_container = 3\<rparr>, \<lparr>shared_container = 1\<rparr>, example_heap_final)
   \<and> snapshot_size example_snapshot example_heap_final = Inr 2
   \<and> snapshot_elems example_snapshot example_heap_final = Inr [1, 2]
   \<and> contents \<lparr>shared_container = 3\<rparr> example_heap_final = Some [5]"
proof -
  have b: "buffer example_heap_AB (shared_container example_A) = Some \<lparr>elems = [1, 2], cap = 2\<rparr>"
    by code_simp
  have d: "shared_container example_B \<noteq> shared_container example_A"
    by code_simp
  have l: "lock example_A example_heap_AB = (example_snapshot, example_heap_locked)"
    by code_simp
  have r: "run example_library example_run example_A example_B example_heap_locked =
       Inr (\<lparr>shared_container = 3\<rparr>, \<lparr>shared_container = 1\<rparr>, example_heap_final)"
    by code_simp
  have c: "contents \<lparr>shared_container = 3\<rparr> example_heap_final = Some [5]"
    by code_simp
  show ?thesis
    using b d l r c snapshot_isolation [OF b d l r, of 0] by simp
qed


section \<open>A container that is moved from\<close>

text \<open>
  Claim C1. Snapshot isolation: once a snapshot \<open>S\<close> is taken with \<^verbatim>\<open>lock()\<close> from
  a container holding \<open>xs\<close>, nothing done to the container afterwards changes the size
  or the elements \<open>S\<close> shows; the class comment says the same, \<^emph>\<open>all iterators are
  unaffected by all operations in this class\<close>. The code breaks this where the container
  is moved from. The move constructor and the move assignment build the new buffer by
  moving out of the vector the source shares with its snapshots, which leaves that vector
  empty. With \<open>A = [1, 2]\<close>, \<open>B = [3, 4]\<close> and a snapshot \<open>S\<close> of \<open>A\<close> showing
  size 2 and \<open>[1, 2]\<close>: after constructing a container from \<^verbatim>\<open>std::move(A)\<close>, after
  \<^verbatim>\<open>B = std::move(A)\<close>, and after \<^verbatim>\<open>A = std::move(A)\<close>, \<open>S\<close> shows size 0 and no
  elements.
\<close>

theorem snapshot_of_moved_from_container_is_emptied:
  "lock example_A example_heap_AB = (example_snapshot, example_heap_locked)
   \<and> snapshot_size example_snapshot example_heap_locked = Inr 2
   \<and> snapshot_elems example_snapshot example_heap_locked = Inr [1, 2]
   \<and> move_construct example_A example_heap_locked =
       Inr (\<lparr>shared_container = 2\<rparr>,
            [Some (\<lparr>elems = [], cap = 0\<rparr>, 1), Some (\<lparr>elems = [3, 4], cap = 2\<rparr>, 0),
             Some (\<lparr>elems = [1, 2], cap = 2\<rparr>, 0)])
   \<and> snapshot_size example_snapshot
         [Some (\<lparr>elems = [], cap = 0\<rparr>, 1), Some (\<lparr>elems = [3, 4 :: int], cap = 2\<rparr>, 0),
          Some (\<lparr>elems = [1, 2], cap = 2\<rparr>, 0)] = Inr 0
   \<and> operator_move_assign_cow example_A example_B example_heap_locked =
       Inr (\<lparr>shared_container = 2\<rparr>,
            [Some (\<lparr>elems = [], cap = 0\<rparr>, 1), None, Some (\<lparr>elems = [1, 2], cap = 2\<rparr>, 0)])
   \<and> snapshot_size example_snapshot
         [Some (\<lparr>elems = [], cap = 0\<rparr>, 1), None, Some (\<lparr>elems = [1, 2 :: int], cap = 2\<rparr>, 0)]
       = Inr 0
   \<and> snapshot_elems example_snapshot
         [Some (\<lparr>elems = [], cap = 0\<rparr>, 1), None, Some (\<lparr>elems = [1, 2 :: int], cap = 2\<rparr>, 0)]
       = Inr []
   \<and> operator_move_assign_cow example_A example_A example_heap_locked =
       Inr (\<lparr>shared_container = 2\<rparr>,
            [Some (\<lparr>elems = [], cap = 0\<rparr>, 0), Some (\<lparr>elems = [3, 4], cap = 2\<rparr>, 0),
             Some (\<lparr>elems = [1, 2], cap = 2\<rparr>, 0)])
   \<and> snapshot_size example_snapshot
         [Some (\<lparr>elems = [], cap = 0\<rparr>, 0), Some (\<lparr>elems = [3, 4 :: int], cap = 2\<rparr>, 0),
          Some (\<lparr>elems = [1, 2], cap = 2\<rparr>, 0)] = Inr 0"
  by code_simp

end
